theory Spec2Isabelle
  imports Complex_Main
begin

section \<open>Errors\<close>

text \<open>
  The JavaScript exceptions the modelled code can raise: reading a property of
  \<open>undefined\<close> (an array read out of range followed by \<open>.y\<close>) raises a TypeError,
  a typed-array \<open>set\<close> past the end of its target raises a RangeError.
\<close>

datatype error = TypeError | RangeError

section \<open>Finger counting (countExtendedFingers)\<close>

text \<open>
  A landmark of the recogniser: normalised image coordinates, y growing downward.
  A hand is the array of its landmarks. Coordinates are modelled as real numbers.
\<close>

record landmark =
  lm_x :: real
  lm_y :: real

type_synonym hand = "landmark list"

text \<open>
  One line of countExtendedFingers: \<open>landmarks[tip].y < landmarks[joint].y\<close>.
  An index past the end of the array reads \<open>undefined\<close>, whose \<open>.y\<close> raises.
\<close>

definition extended :: "hand \<Rightarrow> nat \<Rightarrow> nat \<Rightarrow> error + bool" where
  "extended lms tip joint =
     (if tip < length lms
      then (if joint < length lms
            then Inr (lm_y (lms ! tip) < lm_y (lms ! joint))
            else Inl TypeError)
      else Inl TypeError)"

definition countExtendedFingers :: "hand \<Rightarrow> error + nat" where
  "countExtendedFingers lms =
     (case extended lms 8 6 of Inl e \<Rightarrow> Inl e | Inr b1 \<Rightarrow>
      case extended lms 12 10 of Inl e \<Rightarrow> Inl e | Inr b2 \<Rightarrow>
      case extended lms 16 14 of Inl e \<Rightarrow> Inl e | Inr b3 \<Rightarrow>
      case extended lms 20 18 of Inl e \<Rightarrow> Inl e | Inr b4 \<Rightarrow>
      case extended lms 4 2 of Inl e \<Rightarrow> Inl e | Inr b5 \<Rightarrow>
        Inr ((if b1 then 1 else 0) + (if b2 then 1 else 0) + (if b3 then 1 else 0)
             + (if b4 then 1 else 0) + (if b5 then 1 else 0)))"

text \<open>
  The value of \<open>totalCount\<close> in \<open>animate\<close> once the special cases have been applied,
  for a landmark array that is not empty (the caller checks \<open>results.landmarks.length > 0\<close>;
  the empty array is given the count 0 here and never reaches this code).
  The source calls countExtendedFingers twice on each of the two hands; the calls are
  pure, so each is made once here.
\<close>

definition totalCount :: "hand list \<Rightarrow> error + nat" where
  "totalCount hands =
     (case hands of
        [] \<Rightarrow> Inr 0
      | h0 # rest \<Rightarrow>
          (case countExtendedFingers h0 of Inl e \<Rightarrow> Inl e | Inr count1 \<Rightarrow>
             (case rest of
                [] \<Rightarrow> Inr count1
              | h1 # _ \<Rightarrow>
                  (case countExtendedFingers h1 of Inl e \<Rightarrow> Inl e | Inr c2 \<Rightarrow>
                     (let c1 = count1;
                          t0 = count1 + c2;
                          t1 = (if c1 = 1 \<and> c2 = 1 then 11 else t0);
                          t2 = (if (c1 = 1 \<and> c2 = 2) \<or> (c1 = 2 \<and> c2 = 1) then 12 else t1)
                      in Inr t2)))))"

text \<open>A synthetic hand of 21 landmarks: every lower joint at y = 1/2, a fingertip at
  y = 0 when the digit is extended and at y = 1 when it is folded.\<close>

definition tipY :: "bool \<Rightarrow> real" where
  "tipY up = (if up then 0 else 1)"

definition mkHand :: "bool \<Rightarrow> bool \<Rightarrow> bool \<Rightarrow> bool \<Rightarrow> bool \<Rightarrow> hand" where
  "mkHand thumb index middle ring pinky =
     map (\<lambda>v. \<lparr>lm_x = 1/2, lm_y = v\<rparr>)
       [1/2, 1/2, 1/2, 1/2, tipY thumb,
        1/2, 1/2, 1/2, tipY index,
        1/2, 1/2, 1/2, tipY middle,
        1/2, 1/2, 1/2, tipY ring,
        1/2, 1/2, 1/2, tipY pinky]"

section \<open>Mode state and the React model\<close>

text \<open>
  The state of the App component that the claims are about. The first group are React
  state variables (useState), the second group are refs (useRef) that the animation loop
  and the event handlers read. \<open>activePhotoId\<close> is interactionState.current.activePhotoId
  with -1 for "no photo", \<open>handPos\<close> is interactionState.current.handPos, and
  \<open>uProgress\<close> is the uniform starMat.uniforms.uProgress.value.
  Times are milliseconds as Date.now() returns them.
\<close>

datatype status = Label string | MonthStatus nat

record app =
  isFormed :: bool
  activeMonth :: "nat option"
  uiActiveId :: int
  cameraActive :: bool
  gestureStatus :: status
  isFormedRef :: bool
  activeMonthRef :: "nat option"
  cameraActiveRef :: bool
  activePhotoId :: int
  handPos :: "real \<times> real"
  lastStateChangeTime :: int
  lastVideoTime :: int
  uProgress :: real

definition PHOTO_COUNT :: int where
  "PHOTO_COUNT = 150"

definition initial :: app where
  "initial = \<lparr> isFormed = False, activeMonth = None, uiActiveId = -1, cameraActive = False,
      gestureStatus = Label ''None'', isFormedRef = False, activeMonthRef = None,
      cameraActiveRef = False, activePhotoId = -1, handPos = (0, 0),
      lastStateChangeTime = 0, lastVideoTime = -1, uProgress = 0 \<rparr>"

text \<open>
  A handler's calls of a state setter are applied in order when the handler has returned
  (React batches them and the last value wins), so a handler is modelled as writing the
  state fields directly; what it reads during its run are the refs, which only the
  effects below change. After the handler React renders and runs the effects whose
  dependency changed since the previous render, in the order of the source:
  the three "Sync Refs" effects, then the effect on activeMonth, which forces the
  scattered state and clears the selection when a month is set.
  \<open>runEffects prev s\<close> is one such pass, \<open>prev\<close> being the state of the previous render.
\<close>

definition setActivePhoto :: "int \<Rightarrow> app \<Rightarrow> app" where
  "setActivePhoto i s = s\<lparr>activePhotoId := i, uiActiveId := i\<rparr>"

definition runEffects :: "app \<Rightarrow> app \<Rightarrow> app" where
  "runEffects prev s =
     (let s1 = (if isFormed s \<noteq> isFormed prev then s\<lparr>isFormedRef := isFormed s\<rparr> else s);
          s2 = (if cameraActive s \<noteq> cameraActive prev
                then s1\<lparr>cameraActiveRef := cameraActive s\<rparr> else s1);
          s3 = (if activeMonth s \<noteq> activeMonth prev
                then s2\<lparr>activeMonthRef := activeMonth s\<rparr> else s2);
          s4 = (if activeMonth s \<noteq> activeMonth prev
                then (if activeMonth s \<noteq> None
                      then setActivePhoto (-1) (s3\<lparr>isFormed := False\<rparr>) else s3)
                else s3)
      in s4)"

text \<open>
  The effect on activeMonth sets state itself, so React renders once more and runs the
  effects against the state of the first render; after that nothing changes any more
  (lemma \<open>commit_stable\<close>).
\<close>

definition commit :: "app \<Rightarrow> app \<Rightarrow> app" where
  "commit prev s = runEffects s (runEffects prev s)"

section \<open>Gesture interpreter (the gesture block of animate)\<close>

record results =
  gestures :: "string list list"
  landmarks :: "hand list"

text \<open>Priority 1 of the source: chaos to film, the month selection.\<close>

definition monthSelection :: "int \<Rightarrow> hand list \<Rightarrow> app \<Rightarrow> error + app" where
  "monthSelection now hands s =
     (if \<not> isFormedRef s then
        (if length hands > 0 then
           (case totalCount hands of
              Inl e \<Rightarrow> Inl e
            | Inr cnt \<Rightarrow>
                Inr (if now - lastStateChangeTime s > 2000 then
                       (if 1 \<le> cnt \<and> cnt \<le> 12 then
                          (if activeMonthRef s \<noteq> Some cnt
                           then s\<lparr>activeMonth := Some cnt, gestureStatus := MonthStatus cnt\<rparr>
                           else s)
                        else s)
                     else s))
         else Inr s)
      else Inr s)"

text \<open>Priorities 2 and 3 of the source: closed fist, else open palm.\<close>

definition fistPalm :: "int \<Rightarrow> string \<Rightarrow> app \<Rightarrow> app" where
  "fistPalm now name s =
     (if name = ''Closed_Fist'' then
        (if \<not> isFormedRef s \<or> activeMonthRef s \<noteq> None
         then s\<lparr>isFormed := True, activeMonth := None, lastStateChangeTime := now\<rparr>
         else s)
      else if name = ''Open_Palm'' then
        (if isFormedRef s
         then s\<lparr>isFormed := False, lastStateChangeTime := now\<rparr>
         else s)
      else s)"

text \<open>Hand tracking for the parallax: the index fingertip of the first hand.\<close>

definition parallax :: "hand list \<Rightarrow> app \<Rightarrow> error + app" where
  "parallax hands s =
     (case hands of
        [] \<Rightarrow> Inr s
      | h # _ \<Rightarrow>
          (if 8 < length h
           then Inr (s\<lparr>handPos := ((1 - lm_x (h ! 8)) * 2 - 1, - (lm_y (h ! 8)) * 2 + 1)\<rparr>)
           else Inl TypeError))"

text \<open>
  The gesture block. \<open>ready\<close> stands for the recogniser being loaded and the video
  element having data (readyState 4); \<open>now\<close> is Date.now(), read several times by the
  source within the one frame and taken to be one value; \<open>res\<close> is what recognizeForVideo
  returns. \<open>results.gestures[0][0]\<close> of an empty inner array is \<open>undefined\<close>, whose
  categoryName raises.
\<close>

definition gestureLogic :: "bool \<Rightarrow> int \<Rightarrow> results \<Rightarrow> app \<Rightarrow> error + app" where
  "gestureLogic ready now res s =
     (if cameraActiveRef s \<and> ready then
        (if now \<noteq> lastVideoTime s then
           (let s0 = s\<lparr>lastVideoTime := now\<rparr> in
            case gestures res of
              [] \<Rightarrow> Inr (s0\<lparr>gestureStatus := Label ''None''\<rparr>)
            | g # _ \<Rightarrow>
                (case g of
                   [] \<Rightarrow> Inl TypeError
                 | name # _ \<Rightarrow>
                     (case monthSelection now (landmarks res) (s0\<lparr>gestureStatus := Label name\<rparr>) of
                        Inl e \<Rightarrow> Inl e
                      | Inr s1 \<Rightarrow> parallax (landmarks res) (fistPalm now name s1))))
         else Inr s)
      else Inr s)"

section \<open>Progress controller (the star update of animate)\<close>

text \<open>THREE.MathUtils.lerp of the three.js library: \<open>(1 - t) * x + t * y\<close>.
  The arithmetic is over the real numbers.\<close>

definition lerp :: "real \<Rightarrow> real \<Rightarrow> real \<Rightarrow> real" where
  "lerp x y t = (1 - t) * x + t * y"

definition progressUpdate :: "real \<Rightarrow> real \<Rightarrow> real \<Rightarrow> real" where
  "progressUpdate targetP delta p = lerp p targetP (1 - exp (- 3 * delta))"

definition updateStars :: "real \<Rightarrow> app \<Rightarrow> app" where
  "updateStars delta s =
     s\<lparr>uProgress := progressUpdate (if isFormedRef s then 1 else 0) delta (uProgress s)\<rparr>"

text \<open>One run of animate, as far as it touches the state above: the gesture block, then the
  star update. The camera and the per-object layout that follow write only to the scene.\<close>

definition animate :: "bool \<Rightarrow> int \<Rightarrow> real \<Rightarrow> results \<Rightarrow> app \<Rightarrow> error + app" where
  "animate ready now delta res s =
     (case gestureLogic ready now res s of
        Inl e \<Rightarrow> Inl e
      | Inr s1 \<Rightarrow> Inr (updateStars delta s1))"

section \<open>Carousel and camera handlers\<close>

text \<open>The remainder operator of JavaScript, which takes the sign of the dividend.\<close>

definition jsrem :: "int \<Rightarrow> int \<Rightarrow> int" where
  "jsrem a n = (if a < 0 then - ((- a) mod n) else a mod n)"

definition handleNext :: "app \<Rightarrow> app" where
  "handleNext s =
     (let nextId = activePhotoId s in
      if nextId = -1 then s else setActivePhoto (jsrem (nextId + 1) PHOTO_COUNT) s)"

definition handlePrev :: "app \<Rightarrow> app" where
  "handlePrev s =
     (let prevId = activePhotoId s in
      if prevId = -1 then s else setActivePhoto (jsrem (prevId - 1 + PHOTO_COUNT) PHOTO_COUNT) s)"

definition handleClose :: "app \<Rightarrow> app" where
  "handleClose s = setActivePhoto (-1) s"

text \<open>
  enableCam: without a recogniser it returns; with the camera on it switches the camera
  off and resets the mode; with the camera off it requests the stream, and the state
  changes only later, when the video's loadeddata event arrives (\<open>onLoadedData\<close>).
\<close>

definition enableCam :: "bool \<Rightarrow> app \<Rightarrow> app" where
  "enableCam recogniser s =
     (if \<not> recogniser then s
      else if cameraActive s
      then s\<lparr>cameraActive := False, isFormed := False, activeMonth := None\<rparr>
      else s)"

definition onLoadedData :: "app \<Rightarrow> app" where
  "onLoadedData s = s\<lparr>cameraActive := True\<rparr>"

section \<open>Selection resolver (handleRaycast)\<close>

text \<open>
  An entry of the scene's \<open>objects\<close> array, and what one tap brings from outside the
  model: the ids of the objects whose meshes the ray intersects, nearest first
  (raycaster.intersectObjects), window.innerWidth, for each object id the distance in
  normalised device space between the projection of its mesh position and the tap, and
  the value Math.random() returns.
\<close>

record obj =
  oid :: nat
  isDeco :: bool
  month :: nat

record tap =
  intersects :: "nat list"
  innerWidth :: real
  screenDist :: "nat \<Rightarrow> real"
  rnd :: real

definition directHit :: "obj list \<Rightarrow> nat list \<Rightarrow> int" where
  "directHit objects hits =
     (case hits of
        [] \<Rightarrow> -1
      | i # _ \<Rightarrow>
          (case find (\<lambda>p. oid p = i) objects of
             None \<Rightarrow> -1
           | Some ob \<Rightarrow> (if \<not> isDeco ob then int (oid ob) else -1)))"

text \<open>The forEach of the magnetism step; the loop state is (closestDist, targetId).\<close>

fun magnetism :: "(nat \<Rightarrow> real) \<Rightarrow> obj list \<Rightarrow> real \<times> int \<Rightarrow> real \<times> int" where
  "magnetism d [] st = st"
| "magnetism d (ob # obs) (closestDist, targetId) =
     (if \<not> isDeco ob
      then (if d (oid ob) < closestDist
            then magnetism d obs (d (oid ob), int (oid ob))
            else magnetism d obs (closestDist, targetId))
      else magnetism d obs (closestDist, targetId))"

definition handleRaycast :: "obj list \<Rightarrow> tap \<Rightarrow> app \<Rightarrow> app" where
  "handleRaycast objects t s =
     (if activeMonthRef s \<noteq> None then s
      else
        (let direct = directHit objects (intersects t);
             targetId =
               (if direct = -1 \<and> innerWidth t < 768
                then (let found = snd (magnetism (screenDist t) objects (0.15, direct))
                      in if found = -1 \<and> activePhotoId s = -1
                         then \<lfloor>rnd t * real_of_int PHOTO_COUNT\<rfloor>
                         else found)
                else direct)
         in if targetId \<noteq> -1 then setActivePhoto targetId s else s))"

section \<open>Events and reachable states\<close>

text \<open>
  Every handler runs to completion and is followed by React's render and effects before
  the next handler or frame starts. A frame that raises leaves no successor state in
  the model. Uploads, mouse moves and resizes write nothing to the state modelled here
  and are not events of the model.
\<close>

datatype event =
    Frame bool int real results
  | Tap "obj list" tap
  | Next
  | Prev
  | Close
  | EnableCam bool
  | LoadedData

fun step :: "event \<Rightarrow> app \<Rightarrow> error + app" where
  "step (Frame ready now delta res) s =
     (case animate ready now delta res s of Inl e \<Rightarrow> Inl e | Inr s1 \<Rightarrow> Inr (commit s s1))"
| "step (Tap objects t) s = Inr (commit s (handleRaycast objects t s))"
| "step Next s = Inr (commit s (handleNext s))"
| "step Prev s = Inr (commit s (handlePrev s))"
| "step Close s = Inr (commit s (handleClose s))"
| "step (EnableCam recogniser) s = Inr (commit s (enableCam recogniser s))"
| "step LoadedData s = Inr (commit s (onLoadedData s))"

inductive reachable :: "app \<Rightarrow> bool" where
  start: "reachable initial"
| after: "reachable s \<Longrightarrow> step e s = Inr s1 \<Longrightarrow> reachable s1"

text \<open>Running a list of events from a state, stopping at the first exception.\<close>

fun run :: "event list \<Rightarrow> app \<Rightarrow> error + app" where
  "run [] s = Inr s"
| "run (e # es) s = (case step e s of Inl err \<Rightarrow> Inl err | Inr s1 \<Rightarrow> run es s1)"

section \<open>Invariants of the mode state\<close>

definition synced :: "app \<Rightarrow> bool" where
  "synced s \<longleftrightarrow> isFormedRef s = isFormed s \<and> activeMonthRef s = activeMonth s
     \<and> cameraActiveRef s = cameraActive s \<and> uiActiveId s = activePhotoId s"

definition exclusive :: "app \<Rightarrow> bool" where
  "exclusive s \<longleftrightarrow> (activeMonth s \<noteq> None \<longrightarrow> \<not> isFormed s \<and> activePhotoId s = -1)"

section \<open>Concrete inputs\<close>

definition oneFinger :: hand where "oneFinger = mkHand False True False False False"
definition twoFingers :: hand where "twoFingers = mkHand False True True False False"
definition fistHand :: hand where "fistHand = mkHand False False False False False"
definition showing :: "string \<Rightarrow> hand list \<Rightarrow> results" where
  "showing name hands = \<lparr>gestures = [[name]], landmarks = hands\<rparr>"

definition somePhoto :: obj where
  "somePhoto = \<lparr>oid = 3, isDeco = False, month = 4\<rparr>"

definition directTap :: tap where
  "directTap = \<lparr>intersects = [3], innerWidth = 1024, screenDist = (\<lambda>_. 1), rnd = 0\<rparr>"

definition nearTap :: tap where
  "nearTap = \<lparr>intersects = [], innerWidth = 390, screenDist = (\<lambda>_. 0), rnd = 0\<rparr>"

definition filmEntry :: "event list" where
  "filmEntry = [Tap [somePhoto] directTap, LoadedData,
                Frame True 5000 0 (showing ''None'' [oneFinger])]"
section \<open>Geometry merge (mergeBufferGeometries)\<close>

text \<open>
  A three.js BufferAttribute as far as the merge reads it: its typed array and its
  \<open>count\<close> (the number of items, array.length / itemSize for a well-formed attribute).
  A BufferGeometry with the four attributes the merge copies and its optional index.
\<close>

record 'a buffer_attribute =
  attr_array :: "'a list"
  attr_count :: nat

record geometry =
  position :: "real buffer_attribute"
  normal :: "real buffer_attribute option"
  uv :: "real buffer_attribute option"
  color :: "real buffer_attribute option"
  index :: "nat buffer_attribute option"

text \<open>
  Float32Array.prototype.set(source, offset), the store the merge uses for its four
  attribute arrays: it writes the source over the target from \<open>offset\<close> on, rounding
  every number to single precision, and raises a RangeError when the source does not
  fit. \<open>fround\<close> stands for that rounding (Math.fround); it belongs to the language,
  not to this program, and is a parameter of the model. Numbers are real numbers here.
\<close>

definition float32Set :: "(real \<Rightarrow> real) \<Rightarrow> real list \<Rightarrow> real list \<Rightarrow> nat \<Rightarrow> error + real list" where
  "float32Set fround target source offset =
     (if offset + length source > length target then Inl RangeError
      else Inr (take offset target @ map fround source
                @ drop (offset + length source) target))"

definition optSet ::
    "(real \<Rightarrow> real) \<Rightarrow> real list \<Rightarrow> real buffer_attribute option \<Rightarrow> nat \<Rightarrow> error + real list" where
  "optSet fround target a offset =
     (case a of None \<Rightarrow> Inr target | Some b \<Rightarrow> float32Set fround target (attr_array b) offset)"

text \<open>The first forEach: the totals (vertexCount, indexCount).\<close>

definition countTotals :: "geometry list \<Rightarrow> nat \<times> nat" where
  "countTotals geometries =
     fold (\<lambda>g (vertexCount, indexCount).
             (vertexCount + attr_count (position g),
              (case index g of None \<Rightarrow> indexCount | Some ix \<Rightarrow> indexCount + attr_count ix)))
          geometries (0, 0)"

text \<open>
  The inner loop \<open>indexArray[iOffset + i] = g.index.getX(i) + vOffset\<close>. A write to a
  Uint32Array stores the value modulo \<open>2 ^ 32\<close> and is dropped when the position is past
  the end, as \<open>list_update\<close> does; getX past the end of the index's array reads
  \<open>undefined\<close>, the sum is NaN, and NaN is stored as 0.
\<close>

definition indexLoop :: "nat buffer_attribute \<Rightarrow> nat \<Rightarrow> nat \<Rightarrow> nat list \<Rightarrow> nat list" where
  "indexLoop ix vOffset iOffset indexArray =
     fold (\<lambda>i a. a[iOffset + i :=
                     (if i < length (attr_array ix)
                      then (attr_array ix ! i + vOffset) mod 2 ^ 32 else 0)])
          [0..<attr_count ix] indexArray"

record merge_state =
  positionArray :: "real list"
  normalArray :: "real list"
  uvArray :: "real list"
  colorArray :: "real list"
  indexArray :: "nat list option"
  vOffset :: nat
  iOffset :: nat

text \<open>The body of the second forEach, for one geometry.\<close>

definition mergeStep :: "(real \<Rightarrow> real) \<Rightarrow> geometry \<Rightarrow> merge_state \<Rightarrow> error + merge_state" where
  "mergeStep fround g st =
     (case float32Set fround (positionArray st) (attr_array (position g)) (vOffset st * 3) of
        Inl e \<Rightarrow> Inl e
      | Inr pa \<Rightarrow>
     (case optSet fround (normalArray st) (normal g) (vOffset st * 3) of
        Inl e \<Rightarrow> Inl e
      | Inr na \<Rightarrow>
     (case optSet fround (uvArray st) (uv g) (vOffset st * 2) of
        Inl e \<Rightarrow> Inl e
      | Inr ua \<Rightarrow>
     (case optSet fround (colorArray st) (color g) (vOffset st * 3) of
        Inl e \<Rightarrow> Inl e
      | Inr ca \<Rightarrow>
          (let st1 = st\<lparr>positionArray := pa, normalArray := na, uvArray := ua, colorArray := ca\<rparr>;
               st2 = (case index g of
                        None \<Rightarrow> st1
                      | Some ix \<Rightarrow>
                          (case indexArray st1 of
                             None \<Rightarrow> st1
                           | Some a \<Rightarrow>
                               st1\<lparr>indexArray := Some (indexLoop ix (vOffset st1) (iOffset st1) a),
                                   iOffset := iOffset st1 + attr_count ix\<rparr>))
           in Inr (st2\<lparr>vOffset := vOffset st2 + attr_count (position g)\<rparr>))))))"

fun mergeLoop :: "(real \<Rightarrow> real) \<Rightarrow> geometry list \<Rightarrow> merge_state \<Rightarrow> error + merge_state" where
  "mergeLoop fround [] st = Inr st"
| "mergeLoop fround (g # gs) st =
     (case mergeStep fround g st of Inl e \<Rightarrow> Inl e | Inr st1 \<Rightarrow> mergeLoop fround gs st1)"

definition mergeBufferGeometries :: "(real \<Rightarrow> real) \<Rightarrow> geometry list \<Rightarrow> error + geometry" where
  "mergeBufferGeometries fround geometries =
     (let (vertexCount, indexCount) = countTotals geometries;
          st0 = \<lparr> positionArray = replicate (vertexCount * 3) 0,
                  normalArray = replicate (vertexCount * 3) 0,
                  uvArray = replicate (vertexCount * 2) 0,
                  colorArray = replicate (vertexCount * 3) 0,
                  indexArray = (if indexCount > 0 then Some (replicate indexCount 0) else None),
                  vOffset = 0, iOffset = 0 \<rparr>
      in case mergeLoop fround geometries st0 of
           Inl e \<Rightarrow> Inl e
         | Inr st \<Rightarrow>
             Inr \<lparr> position = \<lparr>attr_array = positionArray st,
                                attr_count = length (positionArray st) div 3\<rparr>,
                   normal = Some \<lparr>attr_array = normalArray st,
                                   attr_count = length (normalArray st) div 3\<rparr>,
                   uv = Some \<lparr>attr_array = uvArray st,
                               attr_count = length (uvArray st) div 2\<rparr>,
                   color = Some \<lparr>attr_array = colorArray st,
                                  attr_count = length (colorArray st) div 3\<rparr>,
                   index = (case indexArray st of
                              None \<Rightarrow> None
                            | Some a \<Rightarrow> Some \<lparr>attr_array = a, attr_count = length a\<rparr>) \<rparr>)"

text \<open>
  The invariant of the attributes the merge reads a \<open>count\<close> of, as the BufferAttribute
  constructor establishes it (count = array.length / itemSize): the position array
  holds three numbers for each of its \<open>count\<close> vertices, and an index counts the entries
  of its array.
\<close>

definition wf_geometry :: "geometry \<Rightarrow> bool" where
  "wf_geometry g \<longleftrightarrow>
     length (attr_array (position g)) = 3 * attr_count (position g)
   \<and> (case index g of None \<Rightarrow> True
        | Some ix \<Rightarrow> attr_count ix = length (attr_array ix))"

text \<open>
  The normal, uv and color arrays may have any length; what matters is that each fits
  into its merged array at the offset where the merge stores it: \<open>off\<close> vertices precede
  the geometry and the merged arrays have room for \<open>room\<close> vertices.
\<close>

definition optFits :: "'a buffer_attribute option \<Rightarrow> nat \<Rightarrow> nat \<Rightarrow> bool" where
  "optFits a offset n =
     (case a of None \<Rightarrow> True | Some b \<Rightarrow> offset + length (attr_array b) \<le> n)"

definition fitsAt :: "geometry \<Rightarrow> nat \<Rightarrow> nat \<Rightarrow> bool" where
  "fitsAt g off room \<longleftrightarrow>
     optFits (normal g) (off * 3) (room * 3)
   \<and> optFits (uv g) (off * 2) (room * 2)
   \<and> optFits (color g) (off * 3) (room * 3)"

fun attrsFit :: "geometry list \<Rightarrow> nat \<Rightarrow> nat \<Rightarrow> bool" where
  "attrsFit [] off room = True"
| "attrsFit (g # gs) off room =
     (fitsAt g off room \<and> attrsFit gs (off + attr_count (position g)) room)"

text \<open>
  What the claim expects of the merged index, in its own words: the indices of the
  inputs in order, each entry shifted by the number of vertices of all the geometries
  before it (\<open>off\<close> is that number for the head of the list).
\<close>

fun expectedIndex :: "geometry list \<Rightarrow> nat \<Rightarrow> nat list" where
  "expectedIndex [] off = []"
| "expectedIndex (g # gs) off =
     (case index g of None \<Rightarrow> [] | Some ix \<Rightarrow> map (\<lambda>v. v + off) (attr_array ix))
     @ expectedIndex gs (off + attr_count (position g))"

text \<open>The index entries one geometry contributes: how many, and their values shifted by \<open>off\<close>.\<close>

definition indexCountOf :: "geometry \<Rightarrow> nat" where
  "indexCountOf g = (case index g of None \<Rightarrow> 0 | Some ix \<Rightarrow> attr_count ix)"

definition shiftedOf :: "geometry \<Rightarrow> nat \<Rightarrow> nat list" where
  "shiftedOf g off = (case index g of None \<Rightarrow> [] | Some ix \<Rightarrow> map (\<lambda>v. v + off) (attr_array ix))"

definition totalVertices :: "geometry list \<Rightarrow> nat" where
  "totalVertices gs = sum_list (map (\<lambda>g. attr_count (position g)) gs)"

definition totalIndices :: "geometry list \<Rightarrow> nat" where
  "totalIndices gs =
     sum_list (map (\<lambda>g. case index g of None \<Rightarrow> 0 | Some ix \<Rightarrow> attr_count ix) gs)"

text \<open>Concrete geometries: a triangle with an index, a triangle without, a geometry
  whose index is present and empty, a triangle whose normal array is shorter than its
  positions, and one whose normal array is longer.\<close>

definition triIndexed :: geometry where
  "triIndexed = \<lparr> position = \<lparr>attr_array = [0, 0, 0, 1, 0, 0, 0, 1, 0], attr_count = 3\<rparr>,
      normal = None, uv = None, color = None,
      index = Some \<lparr>attr_array = [0, 1, 2], attr_count = 3\<rparr> \<rparr>"

definition triPlain :: geometry where
  "triPlain = \<lparr> position = \<lparr>attr_array = [5, 5, 5, 6, 5, 5, 5, 6, 5], attr_count = 3\<rparr>,
      normal = None, uv = None, color = None, index = None \<rparr>"

definition emptyIndexed :: geometry where
  "emptyIndexed = \<lparr> position = \<lparr>attr_array = [0, 0, 0, 1, 0, 0, 0, 1, 0], attr_count = 3\<rparr>,
      normal = None, uv = None, color = None,
      index = Some \<lparr>attr_array = [], attr_count = 0\<rparr> \<rparr>"

definition shortNormal :: geometry where
  "shortNormal = triPlain\<lparr> normal := Some \<lparr>attr_array = [0, 0, 1], attr_count = 1\<rparr> \<rparr>"

definition longNormal :: geometry where
  "longNormal = triPlain\<lparr> normal := Some \<lparr>attr_array = [0, 0, 1, 0, 0, 1, 0, 0, 1, 0, 0, 1],
                                             attr_count = 4\<rparr> \<rparr>"

section \<open>Layout generator (generateTextLayout)\<close>

text \<open>
  THREE.Vector3, with real coordinates. Math.random() is modelled by the sequence of the
  values its successive calls return: \<open>rand k\<close> is the value of call number \<open>k\<close>, each in
  [0, 1) by the contract of Math.random (a hypothesis of the theorems, not of the
  definitions).
\<close>

record vec3 =
  vx :: real
  vy :: real
  vz :: real

type_synonym rng = "nat \<Rightarrow> real"

definition origin :: vec3 where
  "origin = \<lparr>vx = 0, vy = 0, vz = 0\<rparr>"

definition width :: nat where "width = 1024"
definition height :: nat where "height = 512"
definition step_px :: nat where "step_px = 4"

text \<open>The values a loop \<open>for (v = 0; v < n; v += step)\<close> runs through.\<close>

definition strides :: "nat \<Rightarrow> nat list" where
  "strides n = map (\<lambda>k. k * step_px) [0..<(n + step_px - 1) div step_px]"

text \<open>
  The body of the pixel scan. \<open>data\<close> is imageData.data, the bytes of the 1024 by 512
  bitmap after the text was drawn (every index read is within its length), so
  \<open>data idx\<close> is the red channel of pixel (x, y).
\<close>

definition scanPixel :: "(nat \<Rightarrow> nat) \<Rightarrow> nat \<Rightarrow> nat \<Rightarrow> vec3 list \<Rightarrow> vec3 list" where
  "scanPixel data y x points =
     (let idx = (y * width + x) * 4 in
      if data idx > 100
      then points @ [\<lparr> vx = (real x / real width - 0.5) * 75,
                        vy = - (real y / real height - 0.5) * 35,
                        vz = 0 \<rparr>]
      else points)"

definition scan :: "(nat \<Rightarrow> nat) \<Rightarrow> vec3 list" where
  "scan data =
     fold (\<lambda>y points. fold (\<lambda>x pts. scanPixel data y x pts) (strides width) points)
          (strides height) []"

text \<open>
  The shuffle \<open>for (i = points.length - 1; i > 0; i--)\<close>, with
  \<open>j = Math.floor(Math.random() * (i + 1))\<close> and the exchange of points[i] and points[j];
  \<open>k\<close> numbers the call of Math.random. With a random value in [0, 1), j is at most i.
\<close>

fun shuffle :: "nat \<Rightarrow> rng \<Rightarrow> nat \<Rightarrow> vec3 list \<Rightarrow> vec3 list" where
  "shuffle 0 rand k points = points"
| "shuffle (Suc i) rand k points =
     (let j = nat \<lfloor>rand k * real (Suc i + 1)\<rfloor>
      in shuffle i rand (k + 1) (points[Suc i := points ! j, j := points ! Suc i]))"

definition jitter :: "real \<Rightarrow> real" where
  "jitter r = (r - 0.5) * 0.1"

text \<open>
  The loop that fills \<open>result\<close>: \<open>n\<close> iterations are left, \<open>i\<close> is the loop variable and
  \<open>k\<close> numbers the next call of Math.random.
\<close>

fun fill :: "nat \<Rightarrow> nat \<Rightarrow> vec3 list \<Rightarrow> rng \<Rightarrow> nat \<Rightarrow> vec3 list \<Rightarrow> vec3 list" where
  "fill 0 i points rand k result = result"
| "fill (Suc n) i points rand k result =
     (let p = points ! (i mod length points)
      in fill n (i + 1) points rand (k + 3)
           (result @ [\<lparr> vx = vx p + jitter (rand k),
                         vy = vy p + jitter (rand (k + 1)),
                         vz = jitter (rand (k + 2)) \<rparr>]))"

text \<open>
  generateTextLayout. \<open>raster text\<close> stands for the canvas: \<open>None\<close> when
  canvas.getContext('2d') returns null, otherwise the image data read back after the
  text has been drawn. The count is a natural number.
\<close>

definition generateTextLayout ::
    "(string \<Rightarrow> (nat \<Rightarrow> nat) option) \<Rightarrow> rng \<Rightarrow> string \<Rightarrow> nat \<Rightarrow> vec3 list" where
  "generateTextLayout raster rand text count =
     (case raster text of
        None \<Rightarrow> []
      | Some data \<Rightarrow>
          (let points0 = scan data;
               points = shuffle (length points0 - 1) rand 0 points0
           in if length points = 0 then replicate count origin
              else fill count 0 points rand (length points0 - 1) []))"

text \<open>
  How the scene construction, the only caller, reads the layout:
  \<open>textTargetPositions[i % textTargetPositions.length]\<close> followed by a read of its
  coordinates. For an empty layout the index is NaN, the element is \<open>undefined\<close>, and
  the read raises.
\<close>

definition formedBase :: "vec3 list \<Rightarrow> nat \<Rightarrow> error + vec3" where
  "formedBase textTargetPositions i =
     (if length textTargetPositions = 0 then Inl TypeError
      else Inr (textTargetPositions ! (i mod length textTargetPositions)))"

text \<open>The design footprint, 75 wide and 35 high around the origin in the plane z = 0, and
  the footprint widened by the largest jitter, 0.05 on each axis.\<close>

definition inFootprint :: "vec3 \<Rightarrow> bool" where
  "inFootprint p \<longleftrightarrow> - 37.5 \<le> vx p \<and> vx p \<le> 37.5 \<and> - 17.5 \<le> vy p \<and> vy p \<le> 17.5 \<and> vz p = 0"

definition nearFootprint :: "vec3 \<Rightarrow> bool" where
  "nearFootprint q \<longleftrightarrow> \<bar>vx q\<bar> \<le> 37.5 + 0.05 \<and> \<bar>vy q\<bar> \<le> 17.5 + 0.05 \<and> \<bar>vz q\<bar> \<le> 0.05"

text \<open>Concrete canvases: none at all, one whose bitmap stayed black, and one that is
  white all over.\<close>

definition noCanvas :: "string \<Rightarrow> (nat \<Rightarrow> nat) option" where
  "noCanvas text = None"

definition blackCanvas :: "string \<Rightarrow> (nat \<Rightarrow> nat) option" where
  "blackCanvas text = Some (\<lambda>i. 0)"

definition whiteCanvas :: "string \<Rightarrow> (nat \<Rightarrow> nat) option" where
  "whiteCanvas text = Some (\<lambda>i. 255)"

definition halves :: rng where
  "halves k = 1 / 2"

section \<open>Upload (handleUpload)\<close>

text \<open>
  A file of the upload: the month of its lastModified date and whether the browser can
  decode it as an image. For a file that cannot be decoded neither img.onload nor any
  other callback of the source runs (the source sets no onerror handler).
  An entry of userTextures: the texture (identified by its file and its colour) and
  the month.
\<close>

record upload_file =
  file_id :: nat
  file_month :: nat
  decodes :: bool

record item =
  tex_file :: nat
  tex_color :: nat
  item_month :: nat

record upload =
  newItems :: "item list"
  loadedCount :: nat
  userTextures :: "item list"
  sceneReady :: bool

text \<open>
  The img.onload callback of one file; \<open>n\<close> is files.length and \<open>r\<close> the value of
  Math.random() that picks one of the five colours.
\<close>

definition imgOnload :: "nat \<Rightarrow> upload_file \<times> real \<Rightarrow> upload \<Rightarrow> upload" where
  "imgOnload n fr u =
     (let (f, r) = fr;
          u1 = u\<lparr> newItems := newItems u @ [\<lparr> tex_file = file_id f,
                                                tex_color = nat \<lfloor>r * 5\<rfloor>,
                                                item_month = file_month f \<rparr>],
                  loadedCount := loadedCount u + 1 \<rparr>
      in if loadedCount u1 = n
         then u1\<lparr> userTextures := userTextures u1 @ newItems u1,
                  sceneReady := \<not> sceneReady u1 \<rparr>
         else u1)"

text \<open>
  handleUpload followed by the callbacks it registered. \<open>loads\<close> lists the img.onload
  callbacks that fire, in the order in which they fire, each with its file and its random
  value: one for every file that decodes, none for a file that does not.
\<close>

definition handleUpload ::
    "upload_file list \<Rightarrow> (upload_file \<times> real) list \<Rightarrow> item list \<times> bool \<Rightarrow> item list \<times> bool" where
  "handleUpload files loads st =
     (if length files > 0
      then (let u = fold (imgOnload (length files)) loads
                      \<lparr> newItems = [], loadedCount = 0,
                        userTextures = fst st, sceneReady = snd st \<rparr>
            in (userTextures u, sceneReady u))
      else st)"

text \<open>The entry that the callback of one file appends.\<close>

definition mkItem :: "upload_file \<times> real \<Rightarrow> item" where
  "mkItem fr = \<lparr> tex_file = file_id (fst fr), tex_color = nat \<lfloor>snd fr * 5\<rfloor>,
                 item_month = file_month (fst fr) \<rparr>"

text \<open>The callbacks of a batch when the images finish in the order of the files.\<close>

definition loadsOf :: "upload_file list \<Rightarrow> (upload_file \<times> real) list" where
  "loadsOf files = map (\<lambda>f. (f, 0)) (filter decodes files)"

definition validFile :: "nat \<Rightarrow> upload_file" where
  "validFile i = \<lparr>file_id = i, file_month = 7, decodes = True\<rparr>"

definition corruptFile :: "nat \<Rightarrow> upload_file" where
  "corruptFile i = \<lparr>file_id = i, file_month = 7, decodes = False\<rparr>"

section \<open>Finger counting: properties\<close>

lemma extended_in_range:
  "tip < length lms \<Longrightarrow> joint < length lms \<Longrightarrow>
   extended lms tip joint = Inr (lm_y (lms ! tip) < lm_y (lms ! joint))"
  by (simp add: extended_def)

lemma countExtendedFingers_wf:
  assumes "21 \<le> length lms"
  shows "countExtendedFingers lms =
     Inr ((if lm_y (lms ! 8) < lm_y (lms ! 6) then 1 else 0)
        + (if lm_y (lms ! 12) < lm_y (lms ! 10) then 1 else 0)
        + (if lm_y (lms ! 16) < lm_y (lms ! 14) then 1 else 0)
        + (if lm_y (lms ! 20) < lm_y (lms ! 18) then 1 else 0)
        + (if lm_y (lms ! 4) < lm_y (lms ! 2) then 1 else 0))"
  using assms by (simp add: countExtendedFingers_def extended_in_range)

lemma countExtendedFingers_le5:
  "countExtendedFingers lms = Inr c \<Longrightarrow> c \<le> 5"
  by (auto simp: countExtendedFingers_def split: sum.splits)

lemma countExtendedFingers_short:
  "length lms \<le> 20 \<Longrightarrow> countExtendedFingers lms = Inl TypeError"
  by (auto simp: countExtendedFingers_def extended_def split: sum.splits)

lemma length_mkHand: "length (mkHand t i m r p) = 21"
  by (simp add: mkHand_def)

lemma count_mkHand:
  "countExtendedFingers (mkHand t i m r p) =
     Inr ((if i then 1 else 0) + (if m then 1 else 0) + (if r then 1 else 0)
        + (if p then 1 else 0) + (if t then 1 else 0))"
  by (simp add: countExtendedFingers_def extended_def mkHand_def tipY_def)

text \<open>
  C5. A hand of 21 landmarks has a count that is the number of the five
  fingertip-above-lower-joint comparisons that hold, so between 0 and 5; one hand gives
  that count as the total; two hands give 11 when both counts are 1, 12 when the counts
  are 1 and 2 in either order, and otherwise the sum of the two counts, which is at most 10.
\<close>

theorem finger_count_mapping:
  assumes "21 \<le> length h0" and "21 \<le> length h1"
  shows "\<exists>c1 c2.
      countExtendedFingers h0 = Inr c1 \<and> countExtendedFingers h1 = Inr c2
    \<and> c1 = (if lm_y (h0 ! 8) < lm_y (h0 ! 6) then 1 else 0)
         + (if lm_y (h0 ! 12) < lm_y (h0 ! 10) then 1 else 0)
         + (if lm_y (h0 ! 16) < lm_y (h0 ! 14) then 1 else 0)
         + (if lm_y (h0 ! 20) < lm_y (h0 ! 18) then 1 else 0)
         + (if lm_y (h0 ! 4) < lm_y (h0 ! 2) then 1 else 0)
    \<and> c1 \<le> 5 \<and> c2 \<le> 5 \<and> c1 + c2 \<le> 10
    \<and> totalCount [h0] = Inr c1
    \<and> totalCount (h0 # h1 # others) =
         Inr (if c1 = 1 \<and> c2 = 1 then 11
              else if (c1 = 1 \<and> c2 = 2) \<or> (c1 = 2 \<and> c2 = 1) then 12
              else c1 + c2)"
proof -
  obtain c1 where c1: "countExtendedFingers h0 = Inr c1"
    using countExtendedFingers_wf [OF assms(1)] by blast
  obtain c2 where c2: "countExtendedFingers h1 = Inr c2"
    using countExtendedFingers_wf [OF assms(2)] by blast
  have b1: "c1 \<le> 5" and b2: "c2 \<le> 5"
    using c1 c2 by (auto dest: countExtendedFingers_le5)
  have f1: "c1 = (if lm_y (h0 ! 8) < lm_y (h0 ! 6) then 1 else 0)
         + (if lm_y (h0 ! 12) < lm_y (h0 ! 10) then 1 else 0)
         + (if lm_y (h0 ! 16) < lm_y (h0 ! 14) then 1 else 0)
         + (if lm_y (h0 ! 20) < lm_y (h0 ! 18) then 1 else 0)
         + (if lm_y (h0 ! 4) < lm_y (h0 ! 2) then 1 else 0)"
    using c1 countExtendedFingers_wf [OF assms(1)] by simp
  have t1: "totalCount [h0] = Inr c1"
    using c1 by (simp add: totalCount_def)
  have t2: "totalCount (h0 # h1 # others) =
         Inr (if c1 = 1 \<and> c2 = 1 then 11
              else if (c1 = 1 \<and> c2 = 2) \<or> (c1 = 2 \<and> c2 = 1) then 12
              else c1 + c2)"
    using c1 c2 by (simp add: totalCount_def Let_def)
  from c1 c2 b1 b2 f1 t1 t2 show ?thesis by (intro exI [of _ c1] exI [of _ c2]) simp
qed

theorem finger_count_mapping_witness:
  "21 \<le> length (mkHand False True False False False)
   \<and> 21 \<le> length (mkHand False True True False False)
   \<and> totalCount [mkHand False True False False False, mkHand False True True False False] = Inr 12"
proof -
  have l: "21 \<le> length (mkHand t i m r p)" for t i m r p
    by (simp add: length_mkHand)
  show ?thesis
    using finger_count_mapping [OF l l, of False True False False False False True True False False "[]"]
    by (auto simp add: count_mkHand length_mkHand)
qed
section \<open>Mode state: properties\<close>

lemma commit_stable: "runEffects (commit prev s) (commit prev s) = commit prev s"
  by (simp add: runEffects_def Let_def)

lemma commit_fields:
  "lastStateChangeTime (commit prev s) = lastStateChangeTime s"
  "activeMonth (commit prev s) = activeMonth s"
  "cameraActive (commit prev s) = cameraActive s"
  by (simp_all add: commit_def runEffects_def Let_def setActivePhoto_def)

lemma commit_inv:
  assumes "synced prev"
    and "isFormedRef s = isFormedRef prev" and "activeMonthRef s = activeMonthRef prev"
    and "cameraActiveRef s = cameraActiveRef prev" and "uiActiveId s = activePhotoId s"
    and "activeMonth s = activeMonth prev \<Longrightarrow> activeMonth s \<noteq> None \<Longrightarrow> \<not> isFormed s \<and> activePhotoId s = -1"
  shows "synced (commit prev s) \<and> exclusive (commit prev s)"
  using assms
  by (auto simp: synced_def exclusive_def commit_def runEffects_def Let_def setActivePhoto_def)


lemma fistPalm_fields [simp]:
  "isFormedRef (fistPalm now name s) = isFormedRef s"
  "activeMonthRef (fistPalm now name s) = activeMonthRef s"
  "cameraActiveRef (fistPalm now name s) = cameraActiveRef s"
  "uiActiveId (fistPalm now name s) = uiActiveId s"
  "activePhotoId (fistPalm now name s) = activePhotoId s"
  "cameraActive (fistPalm now name s) = cameraActive s"
  by (simp_all add: fistPalm_def)

lemma parallax_proj:
  assumes "parallax hands s = Inr s1"
  shows "isFormedRef s1 = isFormedRef s" "activeMonthRef s1 = activeMonthRef s"
    "cameraActiveRef s1 = cameraActiveRef s" "uiActiveId s1 = uiActiveId s"
    "activePhotoId s1 = activePhotoId s" "cameraActive s1 = cameraActive s"
    "isFormed s1 = isFormed s" "activeMonth s1 = activeMonth s"
    "lastStateChangeTime s1 = lastStateChangeTime s"
  using assms by (auto simp: parallax_def split: if_splits list.splits)

lemma monthSelection_proj:
  assumes "monthSelection now hands s = Inr s1"
  shows "isFormedRef s1 = isFormedRef s" "activeMonthRef s1 = activeMonthRef s"
    "cameraActiveRef s1 = cameraActiveRef s" "uiActiveId s1 = uiActiveId s"
    "activePhotoId s1 = activePhotoId s" "cameraActive s1 = cameraActive s"
    "isFormed s1 = isFormed s" "lastStateChangeTime s1 = lastStateChangeTime s"
  using assms by (auto simp: monthSelection_def split: if_splits sum.splits)

lemma monthSelection_month:
  assumes "monthSelection now hands s = Inr s1"
  shows "activeMonth s1 = activeMonth s
       \<or> (\<not> isFormedRef s \<and> activeMonth s1 \<noteq> None \<and> activeMonth s1 \<noteq> activeMonthRef s)"
  using assms by (auto simp: monthSelection_def split: if_splits sum.splits)

lemma gestureLogic_cases:
  assumes "gestureLogic ready now res s = Inr s1"
  obtains (idle) "s1 = s"
  | (nohands) "s1 = s\<lparr>lastVideoTime := now, gestureStatus := Label ''None''\<rparr>"
  | (gesture) name g gs s2 where "gestures res = (name # g) # gs"
      "monthSelection now (landmarks res) (s\<lparr>lastVideoTime := now, gestureStatus := Label name\<rparr>) = Inr s2"
      "parallax (landmarks res) (fistPalm now name s2) = Inr s1"
  using assms
  by (auto simp: gestureLogic_def Let_def split: if_splits list.splits sum.splits)

lemma gestureLogic_fields:
  assumes "gestureLogic ready now res s = Inr s1"
  shows "isFormedRef s1 = isFormedRef s \<and> activeMonthRef s1 = activeMonthRef s
    \<and> cameraActiveRef s1 = cameraActiveRef s \<and> uiActiveId s1 = uiActiveId s
    \<and> activePhotoId s1 = activePhotoId s \<and> cameraActive s1 = cameraActive s"
  using assms
proof (cases rule: gestureLogic_cases)
  case (gesture name g gs s2)
  show ?thesis
    using parallax_proj [OF gesture(3)] monthSelection_proj [OF gesture(2)] by simp
qed simp_all

text \<open>What a frame does to formed and month, given the refs the handler read.\<close>

lemma gestureLogic_mode:
  assumes "gestureLogic ready now res s = Inr s1" and "synced s" and "exclusive s"
  shows "activeMonth s1 = activeMonth s \<Longrightarrow> activeMonth s1 \<noteq> None \<Longrightarrow> \<not> isFormed s1"
  using assms(1)
proof (cases rule: gestureLogic_cases)
  case idle
  assume "activeMonth s1 = activeMonth s" "activeMonth s1 \<noteq> None"
  then show ?thesis using idle assms(3) by (simp add: exclusive_def)
next
  case nohands
  assume "activeMonth s1 = activeMonth s" "activeMonth s1 \<noteq> None"
  then show ?thesis using nohands assms(3) by (simp add: exclusive_def)
next
  case (gesture name g gs s2)
  assume a: "activeMonth s1 = activeMonth s" "activeMonth s1 \<noteq> None"
  have s2f: "isFormed s2 = isFormed s" "isFormedRef s2 = isFormedRef s"
       "activeMonthRef s2 = activeMonthRef s"
    using monthSelection_proj [OF gesture(2)] by simp_all
  have m1: "activeMonth s1 = activeMonth (fistPalm now name s2)"
       and f1: "isFormed s1 = isFormed (fistPalm now name s2)"
    using parallax_proj [OF gesture(3)] by simp_all
  have nf: "\<not> isFormed s" using a assms(3) by (simp add: exclusive_def)
  show ?thesis
    using a m1 f1 s2f nf assms(2)
    by (auto simp: fistPalm_def synced_def split: if_splits)
qed

lemma updateStars_fields [simp]:
  "isFormedRef (updateStars d s) = isFormedRef s"
  "activeMonthRef (updateStars d s) = activeMonthRef s"
  "cameraActiveRef (updateStars d s) = cameraActiveRef s"
  "uiActiveId (updateStars d s) = uiActiveId s"
  "activePhotoId (updateStars d s) = activePhotoId s"
  "cameraActive (updateStars d s) = cameraActive s"
  "isFormed (updateStars d s) = isFormed s"
  "activeMonth (updateStars d s) = activeMonth s"
  "lastStateChangeTime (updateStars d s) = lastStateChangeTime s"
  by (simp_all add: updateStars_def)

lemma runEffects_same: "runEffects s s = s"
  by (simp add: runEffects_def)

lemma commit_same: "commit s s = s"
  by (simp add: commit_def runEffects_same)

lemma handleRaycast_film: "activeMonthRef s \<noteq> None \<Longrightarrow> handleRaycast objects t s = s"
  by (simp add: handleRaycast_def)

lemma inv_step:
  assumes "synced s" and "exclusive s" and "step e s = Inr s1"
  shows "synced s1 \<and> exclusive s1"
proof (cases e)
  case (Frame ready now delta res)
  then obtain s2 where g: "gestureLogic ready now res s = Inr s2"
    and s1: "s1 = commit s (updateStars delta s2)"
    using assms(3) by (auto simp: animate_def split: sum.splits)
  note f = gestureLogic_fields [OF g]
  have m: "activeMonth s2 = activeMonth s \<Longrightarrow> activeMonth s2 \<noteq> None \<Longrightarrow> \<not> isFormed s2"
    using gestureLogic_mode [OF g assms(1,2)] .
  show ?thesis unfolding s1
  proof (rule commit_inv [OF assms(1)])
    show "uiActiveId (updateStars delta s2) = activePhotoId (updateStars delta s2)"
      using f assms(1) by (simp add: synced_def)
    show "\<not> isFormed (updateStars delta s2) \<and> activePhotoId (updateStars delta s2) = - 1"
      if "activeMonth (updateStars delta s2) = activeMonth s"
        and "activeMonth (updateStars delta s2) \<noteq> None"
      using that m f assms(2) by (simp add: exclusive_def)
  qed (use f in simp_all)
next
  case (Tap objects t)
  then have s1: "s1 = commit s (handleRaycast objects t s)"
    using assms(3) by simp
  show ?thesis unfolding s1
    by (rule commit_inv [OF assms(1)])
       (use assms(1,2) in \<open>auto simp: handleRaycast_def setActivePhoto_def Let_def
          synced_def exclusive_def\<close>)
next
  case Next
  then have s1: "s1 = commit s (handleNext s)"
    using assms(3) by simp
  show ?thesis unfolding s1
    by (rule commit_inv [OF assms(1)])
       (use assms(1,2) in \<open>auto simp: handleNext_def setActivePhoto_def Let_def
          synced_def exclusive_def\<close>)
next
  case Prev
  then have s1: "s1 = commit s (handlePrev s)"
    using assms(3) by simp
  show ?thesis unfolding s1
    by (rule commit_inv [OF assms(1)])
       (use assms(1,2) in \<open>auto simp: handlePrev_def setActivePhoto_def Let_def
          synced_def exclusive_def\<close>)
next
  case Close
  then have s1: "s1 = commit s (handleClose s)"
    using assms(3) by simp
  show ?thesis unfolding s1
    by (rule commit_inv [OF assms(1)])
       (use assms(1,2) in \<open>auto simp: handleClose_def setActivePhoto_def
          synced_def exclusive_def\<close>)
next
  case (EnableCam recogniser)
  then have s1: "s1 = commit s (enableCam recogniser s)"
    using assms(3) by simp
  show ?thesis unfolding s1
    by (rule commit_inv [OF assms(1)])
       (use assms(1,2) in \<open>auto simp: enableCam_def synced_def exclusive_def\<close>)
next
  case LoadedData
  then have s1: "s1 = commit s (onLoadedData s)"
    using assms(3) by simp
  show ?thesis unfolding s1
    by (rule commit_inv [OF assms(1)])
       (use assms(1,2) in \<open>auto simp: onLoadedData_def synced_def exclusive_def\<close>)
qed

lemma reachable_inv: "reachable s \<Longrightarrow> synced s \<and> exclusive s"
proof (induction rule: reachable.induct)
  case start
  show ?case by (simp add: synced_def exclusive_def initial_def)
next
  case (after s e s1)
  then show ?case using inv_step by blast
qed

lemma run_reachable: "reachable s \<Longrightarrow> run es s = Inr s1 \<Longrightarrow> reachable s1"
proof (induction es arbitrary: s)
  case Nil
  then show ?case by simp
next
  case (Cons e es)
  then show ?case by (auto split: sum.splits intro: reachable.after)
qed

lemma count_fixture [simp]:
  "countExtendedFingers oneFinger = Inr 1"
  "countExtendedFingers twoFingers = Inr 2"
  "countExtendedFingers fistHand = Inr 0"
  by (simp_all add: oneFinger_def twoFingers_def fistHand_def count_mkHand)

lemma length_fixture [simp]:
  "length oneFinger = 21" "length twoFingers = 21" "length fistHand = 21"
  by (simp_all add: oneFinger_def twoFingers_def fistHand_def length_mkHand)

lemma totalCount_wf:
  assumes "\<forall>h\<in>set hands. 21 \<le> length h"
  shows "\<exists>c. totalCount hands = Inr c"
proof (cases hands)
  case Nil
  then show ?thesis by (simp add: totalCount_def)
next
  case (Cons h0 rest)
  then have "21 \<le> length h0" using assms by simp
  then obtain c1 where c1: "countExtendedFingers h0 = Inr c1"
    using countExtendedFingers_wf by blast
  show ?thesis
  proof (cases rest)
    case Nil
    then show ?thesis using Cons c1 by (simp add: totalCount_def)
  next
    case (Cons h1 more)
    then have "21 \<le> length h1" using assms \<open>hands = h0 # rest\<close> by simp
    then obtain c2 where c2: "countExtendedFingers h1 = Inr c2"
      using countExtendedFingers_wf by blast
    show ?thesis using Cons \<open>hands = h0 # rest\<close> c1 c2
      by (simp add: totalCount_def Let_def)
  qed
qed

lemma monthSelection_wf:
  assumes "\<forall>h\<in>set hands. 21 \<le> length h"
  shows "\<exists>s1. monthSelection now hands s = Inr s1"
  using totalCount_wf [OF assms]
  by (auto simp: monthSelection_def)

lemma parallax_wf:
  assumes "\<forall>h\<in>set hands. 21 \<le> length h"
  shows "\<exists>s1. parallax hands s = Inr s1"
  using assms by (cases hands) (auto simp: parallax_def)

text \<open>
  C6. In a reachable state with the camera on, a processed frame (recogniser ready, a new
  timestamp, hands of 21 landmarks) whose top label is Closed_Fist, met while the session
  is not formed or a month is active, runs to completion and leaves formed = true, no
  active month and the gate lastStateChangeTime at the time of the frame, whatever the
  finger count of the same frame asked for; the refs follow.
\<close>

theorem closed_fist_transition:
  assumes "reachable s"
    and "cameraActive s" and "ready" and "now \<noteq> lastVideoTime s"
    and "gestures res = (''Closed_Fist'' # g) # gs"
    and "\<forall>h\<in>set (landmarks res). 21 \<le> length h"
    and "\<not> isFormed s \<or> activeMonth s \<noteq> None"
  shows "\<exists>s1. step (Frame ready now delta res) s = Inr s1
     \<and> isFormed s1 \<and> activeMonth s1 = None \<and> lastStateChangeTime s1 = now
     \<and> isFormedRef s1 \<and> activeMonthRef s1 = None"
proof -
  have inv: "synced s" "exclusive s"
    using reachable_inv [OF assms(1)] by simp_all
  let ?s0 = "s\<lparr>lastVideoTime := now, gestureStatus := Label ''Closed_Fist''\<rparr>"
  obtain s2 where s2: "monthSelection now (landmarks res) ?s0 = Inr s2"
    using monthSelection_wf [OF assms(6)] by blast
  obtain s3 where s3: "parallax (landmarks res) (fistPalm now ''Closed_Fist'' s2) = Inr s3"
    using parallax_wf [OF assms(6)] by blast
  have g: "gestureLogic ready now res s = Inr s3"
    using assms(2,3,4,5) inv(1) s2 s3
    by (simp add: gestureLogic_def Let_def synced_def)
  have refs2: "isFormedRef s2 = isFormed s" "activeMonthRef s2 = activeMonth s"
    using monthSelection_proj [OF s2] inv(1) by (simp_all add: synced_def)
  have fp: "isFormed (fistPalm now ''Closed_Fist'' s2)"
       "activeMonth (fistPalm now ''Closed_Fist'' s2) = None"
       "lastStateChangeTime (fistPalm now ''Closed_Fist'' s2) = now"
    using refs2 assms(7) by (auto simp: fistPalm_def)
  have s3f: "isFormed s3" "activeMonth s3 = None" "lastStateChangeTime s3 = now"
    using parallax_proj [OF s3] fp by simp_all
  have refs3: "isFormedRef s3 = isFormed s" "activeMonthRef s3 = activeMonth s"
    using gestureLogic_fields [OF g] inv(1) by (simp_all add: synced_def)
  let ?s1 = "commit s (updateStars delta s3)"
  have st: "step (Frame ready now delta res) s = Inr ?s1"
    using g by (simp add: animate_def)
  have "isFormed ?s1 \<and> activeMonth ?s1 = None \<and> lastStateChangeTime ?s1 = now
     \<and> isFormedRef ?s1 \<and> activeMonthRef ?s1 = None"
    using s3f refs3
    by (auto simp: commit_def runEffects_def Let_def setActivePhoto_def)
  with st show ?thesis by blast
qed

text \<open>
  C7. In every state reachable from the initial state by handlers and frames that run to
  completion, an active month implies that formed is false and that no photo is
  selected (activePhotoId and uiActiveId are -1).
\<close>

theorem mode_exclusivity:
  assumes "reachable s" and "activeMonth s \<noteq> None"
  shows "\<not> isFormed s \<and> activePhotoId s = -1 \<and> uiActiveId s = -1"
  using reachable_inv [OF assms(1)] assms(2)
  by (simp add: synced_def exclusive_def)

lemma commit_photo:
  "activePhotoId (commit prev s) =
     (if activeMonth s \<noteq> activeMonth prev \<and> activeMonth s \<noteq> None then -1 else activePhotoId s)"
  "uiActiveId (commit prev s) =
     (if activeMonth s \<noteq> activeMonth prev \<and> activeMonth s \<noteq> None then -1 else uiActiveId s)"
  by (auto simp: commit_def runEffects_def Let_def setActivePhoto_def)

lemma film_selection_fixed:
  assumes "synced s" and "exclusive s" and "activeMonth s \<noteq> None" and "step e s = Inr s1"
  shows "activePhotoId s1 = activePhotoId s \<and> uiActiveId s1 = uiActiveId s"
proof -
  have p: "activePhotoId s = -1" "uiActiveId s = -1" "activeMonthRef s \<noteq> None"
    using assms(1,2,3) by (simp_all add: synced_def exclusive_def)
  show ?thesis
  proof (cases e)
    case (Frame ready now delta res)
    then obtain s2 where g: "gestureLogic ready now res s = Inr s2"
      and s1: "s1 = commit s (updateStars delta s2)"
      using assms(4) by (auto simp: animate_def split: sum.splits)
    show ?thesis
      using gestureLogic_fields [OF g] p by (simp add: s1 commit_photo)
  next
    case (Tap objects t)
    then show ?thesis
      using assms(4) p by (auto simp: handleRaycast_film commit_same)
  next
    case Next
    then show ?thesis
      using assms(4) p by (auto simp: handleNext_def commit_same)
  next
    case Prev
    then show ?thesis
      using assms(4) p by (auto simp: handlePrev_def commit_same)
  next
    case Close
    then show ?thesis
      using assms(4) p by (auto simp: handleClose_def setActivePhoto_def commit_photo)
  next
    case (EnableCam recogniser)
    then show ?thesis
      using assms(4) p by (auto simp: enableCam_def commit_photo)
  next
    case LoadedData
    then show ?thesis
      using assms(4) p by (auto simp: onLoadedData_def commit_photo)
  qed
qed

text \<open>
  C9. In a reachable state with an active month, handleRaycast returns the state as it
  was, so the tap changes nothing at all; and no event other than the next, prev and
  close controls changes the selection.
\<close>

theorem film_tap_suppressed:
  assumes "reachable s" and "activeMonth s \<noteq> None"
  shows "handleRaycast objects t s = s \<and> step (Tap objects t) s = Inr s
    \<and> (\<forall>e s1. e \<noteq> Next \<longrightarrow> e \<noteq> Prev \<longrightarrow> e \<noteq> Close \<longrightarrow> step e s = Inr s1 \<longrightarrow>
          activePhotoId s1 = activePhotoId s \<and> uiActiveId s1 = uiActiveId s)"
proof -
  have inv: "synced s" "exclusive s"
    using reachable_inv [OF assms(1)] by simp_all
  have r: "activeMonthRef s \<noteq> None"
    using inv(1) assms(2) by (simp add: synced_def)
  have a: "handleRaycast objects t s = s"
    using r by (rule handleRaycast_film)
  have b: "step (Tap objects t) s = Inr s"
    by (simp add: a commit_same)
  show ?thesis
    using a b film_selection_fixed [OF inv assms(2)] by blast
qed

lemmas eval_defs = initial_def onLoadedData_def commit_def runEffects_def Let_def
      animate_def gestureLogic_def showing_def monthSelection_def totalCount_def fistPalm_def
      parallax_def updateStars_def setActivePhoto_def handleRaycast_def directHit_def
      somePhoto_def directTap_def nearTap_def PHOTO_COUNT_def

lemma tap_selects:
  "map_sum id activePhotoId (run [Tap [somePhoto] directTap] initial) = Inr 3"
  by (simp add: eval_defs)

lemma filmEntry_run:
  "\<exists>s. run filmEntry initial = Inr s \<and> activeMonth s = Some 1 \<and> lastStateChangeTime s = 0
     \<and> cameraActive s \<and> lastVideoTime s = 5000"
  by (simp add: filmEntry_def eval_defs)

text \<open>
  C1. The month selection reads the gate lastStateChangeTime and never writes it
  (lemma \<open>monthSelection_proj\<close>); only the fist and palm branches do. From the initial
  state, with the camera on, one finger shown at 5000 ms sets month 1 and two fingers
  shown at 5100 ms set month 2: two category transitions 100 ms apart, the gate still 0.
\<close>

theorem debounce_gap:
  "map_sum id (\<lambda>s. (activeMonth s, lastStateChangeTime s))
     (run [LoadedData, Frame True 5000 0 (showing ''None'' [oneFinger])] initial)
     = Inr (Some 1, 0)
   \<and> map_sum id (\<lambda>s. (activeMonth s, lastStateChangeTime s))
     (run [LoadedData, Frame True 5000 0 (showing ''None'' [oneFinger]),
           Frame True 5100 0 (showing ''None'' [twoFingers])] initial)
     = Inr (Some 2, 0)"
  by (simp add: eval_defs)

theorem closed_fist_transition_witness:
  "\<exists>s. run filmEntry initial = Inr s \<and> activeMonth s \<noteq> None
     \<and> (\<exists>s1. step (Frame True 6000 0 (showing ''Closed_Fist'' [fistHand])) s = Inr s1
           \<and> isFormed s1 \<and> activeMonth s1 = None \<and> lastStateChangeTime s1 = 6000)"
proof -
  obtain s where s: "run filmEntry initial = Inr s" "activeMonth s = Some 1"
      "cameraActive s" "lastVideoTime s = 5000"
    using filmEntry_run by blast
  have r: "reachable s"
    using run_reachable [OF reachable.start s(1)] .
  have "\<exists>s1. step (Frame True 6000 0 (showing ''Closed_Fist'' [fistHand])) s = Inr s1
     \<and> isFormed s1 \<and> activeMonth s1 = None \<and> lastStateChangeTime s1 = 6000
     \<and> isFormedRef s1 \<and> activeMonthRef s1 = None"
    by (rule closed_fist_transition [OF r s(3), where g = "[]" and gs = "[]"])
       (simp_all add: s showing_def)
  then show ?thesis using s by auto
qed

theorem mode_exclusivity_witness:
  "map_sum id activePhotoId (run [Tap [somePhoto] directTap] initial) = Inr 3
   \<and> (\<exists>s. run filmEntry initial = Inr s \<and> activeMonth s = Some 1
          \<and> \<not> isFormed s \<and> activePhotoId s = -1 \<and> uiActiveId s = -1)"
proof -
  obtain s where s: "run filmEntry initial = Inr s" "activeMonth s = Some 1"
    using filmEntry_run by blast
  have r: "reachable s"
    using run_reachable [OF reachable.start s(1)] .
  have "\<not> isFormed s \<and> activePhotoId s = -1 \<and> uiActiveId s = -1"
    using mode_exclusivity [OF r] s(2) by simp
  then show ?thesis using s tap_selects by blast
qed

theorem film_tap_suppressed_witness:
  "\<exists>s. run filmEntry initial = Inr s \<and> activeMonth s = Some 1
     \<and> handleRaycast [somePhoto] nearTap s = s
     \<and> step (Tap [somePhoto] nearTap) s = Inr s"
proof -
  obtain s where s: "run filmEntry initial = Inr s" "activeMonth s = Some 1"
    using filmEntry_run by blast
  have r: "reachable s"
    using run_reachable [OF reachable.start s(1)] .
  have "handleRaycast [somePhoto] nearTap s = s \<and> step (Tap [somePhoto] nearTap) s = Inr s"
    using film_tap_suppressed [OF r, of "[somePhoto]" nearTap] s(2) by (simp add: commit_same)
  then show ?thesis using s by blast
qed

section \<open>Selection resolver: properties\<close>

lemma magnetism_none:
  "\<forall>p\<in>set obs. \<not> isDeco p \<longrightarrow> \<not> d (oid p) < c \<Longrightarrow> magnetism d obs (c, tid) = (c, tid)"
  by (induction obs) auto

lemma magnetism_some:
  assumes "\<exists>p\<in>set obs. \<not> isDeco p \<and> d (oid p) < c"
  shows "\<exists>p\<in>set obs. \<not> isDeco p \<and> magnetism d obs (c, tid) = (d (oid p), int (oid p))
           \<and> d (oid p) < c \<and> (\<forall>q\<in>set obs. \<not> isDeco q \<longrightarrow> d (oid p) \<le> d (oid q))"
  using assms
proof (induction obs arbitrary: c tid)
  case Nil
  then show ?case by simp
next
  case (Cons ob obs)
  show ?case
  proof (cases "\<not> isDeco ob \<and> d (oid ob) < c")
    case True
    note hit = this
    show ?thesis
    proof (cases "\<exists>p\<in>set obs. \<not> isDeco p \<and> d (oid p) < d (oid ob)")
      case True
      from Cons.IH [OF True, of "int (oid ob)"]
      obtain p where p: "p \<in> set obs" "\<not> isDeco p"
        "magnetism d obs (d (oid ob), int (oid ob)) = (d (oid p), int (oid p))"
        "d (oid p) < d (oid ob)" "\<forall>q\<in>set obs. \<not> isDeco q \<longrightarrow> d (oid p) \<le> d (oid q)"
        by blast
      show ?thesis
        using hit p by (intro bexI [of _ p]) auto
    next
      case False
      then have "magnetism d obs (d (oid ob), int (oid ob)) = (d (oid ob), int (oid ob))"
        by (intro magnetism_none) auto
      then show ?thesis
        using hit False by (intro bexI [of _ ob]) (auto simp: not_less)
    qed
  next
    case False
    then have ex: "\<exists>p\<in>set obs. \<not> isDeco p \<and> d (oid p) < c"
      using Cons.prems by auto
    from Cons.IH [OF ex, of tid]
    obtain p where p: "p \<in> set obs" "\<not> isDeco p"
        "magnetism d obs (c, tid) = (d (oid p), int (oid p))"
        "d (oid p) < c" "\<forall>q\<in>set obs. \<not> isDeco q \<longrightarrow> d (oid p) \<le> d (oid q)"
      by blast
    have "magnetism d (ob # obs) (c, tid) = magnetism d obs (c, tid)"
      using False by auto
    then show ?thesis
      using False p by (intro bexI [of _ p]) (auto simp: not_less)
  qed
qed

lemma floor_uniform:
  fixes r :: real
  shows "(\<lfloor>r * 150\<rfloor> = k) = (real_of_int k / 150 \<le> r \<and> r < (real_of_int k + 1) / 150)"
  by (auto simp: floor_eq_iff field_simps)

lemma floor_range:
  fixes r :: real
  assumes "0 \<le> r" "r < 1"
  shows "0 \<le> \<lfloor>r * 150\<rfloor> \<and> \<lfloor>r * 150\<rfloor> < 150"
  using assms by (simp add: floor_less_iff)

text \<open>
  C8, as amended. For a tap that reaches the raycast (no month is active), has no
  qualifying direct hit and comes from a viewport narrower than 768: when some photo lies
  at a distance below 0.15 the tap selects a photo at the least distance among all photos;
  when none does and nothing is selected, it selects \<open>\<lfloor>Math.random() * 150\<rfloor>\<close>, an id in
  [0, PHOTO_COUNT) whose every value is the image of an interval of length 1/150 of the
  random number; when none does and a photo is selected, the state stays as it is.
\<close>

theorem magnetism_fallback:
  assumes "activeMonthRef s = None"
    and "directHit objects (intersects t) = -1"
    and "innerWidth t < 768"
    and "0 \<le> rnd t" and "rnd t < 1"
  shows "((\<exists>p\<in>set objects. \<not> isDeco p \<and> screenDist t (oid p) < 0.15) \<longrightarrow>
           (\<exists>p\<in>set objects. \<not> isDeco p \<and> screenDist t (oid p) < 0.15
              \<and> (\<forall>q\<in>set objects. \<not> isDeco q \<longrightarrow> screenDist t (oid p) \<le> screenDist t (oid q))
              \<and> handleRaycast objects t s = setActivePhoto (int (oid p)) s))
       \<and> (\<not> (\<exists>p\<in>set objects. \<not> isDeco p \<and> screenDist t (oid p) < 0.15) \<longrightarrow>
            (activePhotoId s = -1 \<longrightarrow>
               handleRaycast objects t s = setActivePhoto \<lfloor>rnd t * 150\<rfloor> s
               \<and> 0 \<le> \<lfloor>rnd t * 150\<rfloor> \<and> \<lfloor>rnd t * 150\<rfloor> < PHOTO_COUNT
               \<and> (\<forall>k. (\<lfloor>rnd t * 150\<rfloor> = k)
                      = (real_of_int k / 150 \<le> rnd t \<and> rnd t < (real_of_int k + 1) / 150)))
          \<and> (activePhotoId s \<noteq> -1 \<longrightarrow> handleRaycast objects t s = s))"
proof (intro conjI impI)
  assume ex: "\<exists>p\<in>set objects. \<not> isDeco p \<and> screenDist t (oid p) < 0.15"
  from magnetism_some [OF ex, of "-1"]
  obtain p where p: "p \<in> set objects" "\<not> isDeco p"
    "magnetism (screenDist t) objects (0.15, -1) = (screenDist t (oid p), int (oid p))"
    "screenDist t (oid p) < 0.15"
    "\<forall>q\<in>set objects. \<not> isDeco q \<longrightarrow> screenDist t (oid p) \<le> screenDist t (oid q)"
    by blast
  have "handleRaycast objects t s = setActivePhoto (int (oid p)) s"
    using assms(1,2,3) p(3) by (simp add: handleRaycast_def Let_def)
  then show "\<exists>p\<in>set objects. \<not> isDeco p \<and> screenDist t (oid p) < 0.15
              \<and> (\<forall>q\<in>set objects. \<not> isDeco q \<longrightarrow> screenDist t (oid p) \<le> screenDist t (oid q))
              \<and> handleRaycast objects t s = setActivePhoto (int (oid p)) s"
    using p by blast
next
  assume no: "\<not> (\<exists>p\<in>set objects. \<not> isDeco p \<and> screenDist t (oid p) < 0.15)"
  then have m: "magnetism (screenDist t) objects (0.15, -1) = (0.15, -1)"
    by (intro magnetism_none) auto
  {
    assume a: "activePhotoId s = -1"
    have fr: "0 \<le> \<lfloor>rnd t * 150\<rfloor> \<and> \<lfloor>rnd t * 150\<rfloor> < 150"
      using floor_range [OF assms(4,5)] .
    then have "\<lfloor>rnd t * 150\<rfloor> \<noteq> -1" by linarith
    then show "handleRaycast objects t s = setActivePhoto \<lfloor>rnd t * 150\<rfloor> s"
      using assms(1,2,3) m a by (simp add: handleRaycast_def Let_def PHOTO_COUNT_def)
    show "0 \<le> \<lfloor>rnd t * 150\<rfloor>" using fr by simp
    show "\<lfloor>rnd t * 150\<rfloor> < PHOTO_COUNT" using fr by (simp add: PHOTO_COUNT_def)
    show "\<forall>k. (\<lfloor>rnd t * 150\<rfloor> = k)
                      = (real_of_int k / 150 \<le> rnd t \<and> rnd t < (real_of_int k + 1) / 150)"
      using floor_uniform by blast
  }
  {
    assume a: "activePhotoId s \<noteq> -1"
    show "handleRaycast objects t s = s"
      using assms(1,2,3) m a by (simp add: handleRaycast_def Let_def)
  }
qed

theorem magnetism_fallback_witness:
  "activeMonthRef initial = None \<and> directHit [somePhoto] (intersects nearTap) = -1
   \<and> innerWidth nearTap < 768 \<and> screenDist nearTap (oid somePhoto) < 0.15
   \<and> handleRaycast [somePhoto] nearTap initial = setActivePhoto 3 initial"
proof -
  have h: "activeMonthRef initial = None" "directHit [somePhoto] (intersects nearTap) = -1"
    "innerWidth nearTap < 768" "0 \<le> rnd nearTap" "rnd nearTap < 1"
    by (simp_all add: initial_def nearTap_def directHit_def)
  have e: "\<exists>p\<in>set [somePhoto]. \<not> isDeco p \<and> screenDist nearTap (oid p) < 0.15"
    by (simp add: somePhoto_def nearTap_def)
  have "\<exists>p\<in>set [somePhoto]. \<not> isDeco p \<and> screenDist nearTap (oid p) < 0.15
              \<and> (\<forall>q\<in>set [somePhoto]. \<not> isDeco q \<longrightarrow> screenDist nearTap (oid p) \<le> screenDist nearTap (oid q))
              \<and> handleRaycast [somePhoto] nearTap initial = setActivePhoto (int (oid p)) initial"
    using magnetism_fallback [OF h] e by blast
  then have "handleRaycast [somePhoto] nearTap initial = setActivePhoto 3 initial"
    by (simp add: somePhoto_def)
  then show ?thesis using h by (simp add: somePhoto_def nearTap_def)
qed

text \<open>
  C8 as stated fails in film mode: with month 1 active, on a viewport 390 wide, a tap
  with no direct hit and a photo at distance 0 selects nothing.
\<close>

theorem magnetism_film_counterexample:
  "map_sum id activeMonth (run filmEntry initial) = Inr (Some 1)
   \<and> directHit [somePhoto] (intersects nearTap) = -1
   \<and> innerWidth nearTap < 768
   \<and> \<not> isDeco somePhoto \<and> screenDist nearTap (oid somePhoto) < 0.15
   \<and> map_sum id (\<lambda>s. activePhotoId (handleRaycast [somePhoto] nearTap s))
        (run filmEntry initial) = Inr (-1)"
  by (simp add: filmEntry_def eval_defs)
section \<open>Progress controller: properties\<close>

lemma progressUpdate_formula:
  "progressUpdate targetP delta p = p + (targetP - p) * (1 - exp (- 3 * delta))"
  by (simp add: progressUpdate_def lerp_def algebra_simps)

lemma progressUpdate_gap:
  "progressUpdate targetP delta p - targetP = (p - targetP) * exp (- 3 * delta)"
  by (simp add: progressUpdate_def lerp_def algebra_simps)

lemma progress_iter_gap:
  "(progressUpdate targetP delta ^^ n) p - targetP = (p - targetP) * exp (- 3 * delta) ^ n"
proof (induction n)
  case 0
  show ?case by simp
next
  case (Suc n)
  have "(progressUpdate targetP delta ^^ Suc n) p - targetP
        = ((progressUpdate targetP delta ^^ n) p - targetP) * exp (- 3 * delta)"
    by (simp add: progressUpdate_gap)
  then show ?case by (simp add: Suc.IH)
qed

lemma decay_unit:
  fixes delta :: real
  assumes "0 \<le> delta"
  shows "0 < exp (- 3 * delta) ^ n" "exp (- 3 * delta) ^ n \<le> 1"
proof -
  have "exp (- 3 * delta) \<le> 1" using assms by simp
  then show "exp (- 3 * delta) ^ n \<le> 1" by (simp add: power_le_one)
  show "0 < exp (- 3 * delta) ^ n" by simp
qed

lemma progress_iter_eq:
  "(progressUpdate targetP delta ^^ n) p = targetP + (p - targetP) * exp (- 3 * delta) ^ n"
  using progress_iter_gap [where targetP = targetP and delta = delta and n = n and p = p]
  by simp

lemma progress_bounds:
  assumes "targetP = 0 \<or> targetP = 1" "0 \<le> p" "p \<le> 1" "0 \<le> delta"
  shows "0 \<le> (progressUpdate targetP delta ^^ n) p \<and> (progressUpdate targetP delta ^^ n) p \<le> 1"
proof -
  let ?q = "exp (- 3 * delta) ^ n"
  have q: "0 < ?q" "?q \<le> 1" using decay_unit [OF assms(4)] by simp_all
  from assms(1) show ?thesis
  proof
    assume t: "targetP = 0"
    have "0 \<le> p * ?q" using assms(2) q by simp
    moreover have "p * ?q \<le> 1 * 1" using assms(2,3) q by (intro mult_mono) simp_all
    ultimately show ?thesis by (simp add: progress_iter_eq t)
  next
    assume t: "targetP = 1"
    have a: "0 \<le> (1 - p) * ?q" using assms(3) q by simp
    have "(1 - p) * ?q \<le> 1 * 1" using assms(2,3) q by (intro mult_mono) simp_all
    then have b: "(1 - p) * ?q \<le> 1" by simp
    have "(progressUpdate targetP delta ^^ n) p = 1 - (1 - p) * ?q"
      by (simp add: progress_iter_eq t algebra_simps)
    then show ?thesis using a b by simp
  qed
qed

lemma progress_step_mono:
  assumes "0 \<le> delta"
  shows "\<bar>(progressUpdate targetP delta ^^ Suc n) p - targetP\<bar>
         \<le> \<bar>(progressUpdate targetP delta ^^ n) p - targetP\<bar>"
proof -
  have "\<bar>(progressUpdate targetP delta ^^ Suc n) p - targetP\<bar>
        = \<bar>(progressUpdate targetP delta ^^ n) p - targetP\<bar> * exp (- 3 * delta)"
    by (simp add: progressUpdate_gap abs_mult)
  also have "\<dots> \<le> \<bar>(progressUpdate targetP delta ^^ n) p - targetP\<bar> * 1"
    using assms by (intro mult_left_mono) simp_all
  finally show ?thesis by simp
qed

lemma progress_direction:
  assumes "0 \<le> delta"
  shows "p \<le> targetP \<Longrightarrow> (progressUpdate targetP delta ^^ n) p \<le> (progressUpdate targetP delta ^^ Suc n) p
            \<and> (progressUpdate targetP delta ^^ Suc n) p \<le> targetP"
    and "targetP \<le> p \<Longrightarrow> (progressUpdate targetP delta ^^ Suc n) p \<le> (progressUpdate targetP delta ^^ n) p
            \<and> targetP \<le> (progressUpdate targetP delta ^^ Suc n) p"
proof -
  let ?e = "exp (- 3 * delta)"
  have e: "0 < ?e" "?e \<le> 1" using assms by simp_all
  have q: "0 \<le> ?e ^ n" by simp
  have qs: "?e ^ Suc n \<le> ?e ^ n" using e by (simp add: mult_left_le_one_le)
  {
    assume a: "p \<le> targetP"
    have "(targetP - p) * ?e ^ Suc n \<le> (targetP - p) * ?e ^ n"
      using a qs by (intro mult_left_mono) simp_all
    moreover have "0 \<le> (targetP - p) * ?e ^ Suc n" using a by simp
    ultimately show "(progressUpdate targetP delta ^^ n) p \<le> (progressUpdate targetP delta ^^ Suc n) p
            \<and> (progressUpdate targetP delta ^^ Suc n) p \<le> targetP"
      unfolding progress_iter_eq by (simp add: algebra_simps)
  }
  {
    assume a: "targetP \<le> p"
    have "(p - targetP) * ?e ^ Suc n \<le> (p - targetP) * ?e ^ n"
      using a qs by (intro mult_left_mono) simp_all
    moreover have "0 \<le> (p - targetP) * ?e ^ Suc n" using a by simp
    ultimately show "(progressUpdate targetP delta ^^ Suc n) p \<le> (progressUpdate targetP delta ^^ n) p
            \<and> targetP \<le> (progressUpdate targetP delta ^^ Suc n) p"
      unfolding progress_iter_eq by (simp add: algebra_simps)
  }
qed

lemma progress_converges:
  assumes "0 < delta" "0 < eps"
  shows "\<exists>N. \<forall>n\<ge>N. \<bar>(progressUpdate targetP delta ^^ n) p - targetP\<bar> < eps"
proof -
  let ?e = "exp (- 3 * delta)"
  have e: "0 < ?e" "?e < 1" using assms(1) by simp_all
  have pos: "0 < eps / (\<bar>p - targetP\<bar> + 1)" using assms(2) by simp
  obtain N where N: "?e ^ N < eps / (\<bar>p - targetP\<bar> + 1)"
    using real_arch_pow_inv [OF pos e(2)] by blast
  have "\<bar>(progressUpdate targetP delta ^^ n) p - targetP\<bar> < eps" if "N \<le> n" for n
  proof -
    have "?e ^ n \<le> ?e ^ N" using that e by (intro power_decreasing) simp_all
    then have lt: "?e ^ n < eps / (\<bar>p - targetP\<bar> + 1)" using N by simp
    have "\<bar>(progressUpdate targetP delta ^^ n) p - targetP\<bar> = \<bar>p - targetP\<bar> * ?e ^ n"
      by (simp add: progress_iter_gap abs_mult)
    also have "\<dots> \<le> (\<bar>p - targetP\<bar> + 1) * ?e ^ n"
      by (intro mult_right_mono) simp_all
    also have "\<dots> < (\<bar>p - targetP\<bar> + 1) * (eps / (\<bar>p - targetP\<bar> + 1))"
      using lt by (intro mult_strict_left_mono) simp_all
    also have "\<dots> = eps" by simp
    finally show ?thesis .
  qed
  then show ?thesis by blast
qed

lemma progress_stuck: "(progressUpdate targetP 0 ^^ n) p = p"
  by (simp add: progress_iter_eq)

text \<open>
  C3, as amended. In real arithmetic, for a target of 0 or 1, a progress in [0,1] and
  \<open>delta \<ge> 0\<close>: the update is \<open>p + (target - p) * (1 - exp (-3 * delta))\<close>; every
  iterate of the fixed-delta update stays in [0,1]; each step brings the value no
  farther from the target, moving up toward 1 or down toward 0 without passing it; and
  for \<open>delta > 0\<close> the iterates come within any \<open>eps > 0\<close> of the target from some step on.
\<close>

theorem progress_controller:
  assumes "targetP = 0 \<or> targetP = 1" and "0 \<le> p" and "p \<le> 1" and "0 \<le> delta"
  shows "progressUpdate targetP delta p = p + (targetP - p) * (1 - exp (- 3 * delta))
    \<and> (\<forall>n. 0 \<le> (progressUpdate targetP delta ^^ n) p \<and> (progressUpdate targetP delta ^^ n) p \<le> 1)
    \<and> (\<forall>n. \<bar>(progressUpdate targetP delta ^^ Suc n) p - targetP\<bar>
             \<le> \<bar>(progressUpdate targetP delta ^^ n) p - targetP\<bar>)
    \<and> (\<forall>n. (targetP = 1 \<longrightarrow>
               (progressUpdate targetP delta ^^ n) p \<le> (progressUpdate targetP delta ^^ Suc n) p
               \<and> (progressUpdate targetP delta ^^ Suc n) p \<le> 1)
          \<and> (targetP = 0 \<longrightarrow>
               (progressUpdate targetP delta ^^ Suc n) p \<le> (progressUpdate targetP delta ^^ n) p
               \<and> 0 \<le> (progressUpdate targetP delta ^^ Suc n) p))
    \<and> (0 < delta \<longrightarrow>
         (\<forall>eps>0. \<exists>N. \<forall>n\<ge>N. \<bar>(progressUpdate targetP delta ^^ n) p - targetP\<bar> < eps))"
proof (intro conjI allI impI)
  show "progressUpdate targetP delta p = p + (targetP - p) * (1 - exp (- 3 * delta))"
    by (rule progressUpdate_formula)
next
  fix n
  show "0 \<le> (progressUpdate targetP delta ^^ n) p"
    using progress_bounds [OF assms] by blast
  show "(progressUpdate targetP delta ^^ n) p \<le> 1"
    using progress_bounds [OF assms] by blast
  show "\<bar>(progressUpdate targetP delta ^^ Suc n) p - targetP\<bar>
             \<le> \<bar>(progressUpdate targetP delta ^^ n) p - targetP\<bar>"
    by (rule progress_step_mono [OF assms(4)])
next
  fix n assume t: "targetP = 1"
  then have "p \<le> targetP" using assms(3) by simp
  from progress_direction(1) [OF assms(4) this, of n]
  show "(progressUpdate targetP delta ^^ n) p \<le> (progressUpdate targetP delta ^^ Suc n) p"
    and "(progressUpdate targetP delta ^^ Suc n) p \<le> 1"
    using t by simp_all
next
  fix n assume t: "targetP = 0"
  then have "targetP \<le> p" using assms(2) by simp
  from progress_direction(2) [OF assms(4) this, of n]
  show "(progressUpdate targetP delta ^^ Suc n) p \<le> (progressUpdate targetP delta ^^ n) p"
    and "0 \<le> (progressUpdate targetP delta ^^ Suc n) p"
    using t by simp_all
next
  fix eps :: real assume "0 < delta" "0 < eps"
  then show "\<exists>N. \<forall>n\<ge>N. \<bar>(progressUpdate targetP delta ^^ n) p - targetP\<bar> < eps"
    by (rule progress_converges)
qed

theorem progress_controller_witness:
  "progressUpdate 1 1 0 = 1 - exp (- 3)
   \<and> 0 \<le> progressUpdate 1 1 0 \<and> progressUpdate 1 1 0 \<le> 1
   \<and> (\<exists>N. \<forall>n\<ge>N. \<bar>(progressUpdate 1 1 ^^ n) 0 - 1\<bar> < 1 / 100)"
proof -
  have h: "(1::real) = 0 \<or> (1::real) = 1" "(0::real) \<le> 0" "(0::real) \<le> 1" "(0::real) \<le> 1"
    by simp_all
  note t = progress_controller [OF h]
  have a: "progressUpdate 1 1 0 = 1 - exp (- 3)"
    using t [THEN conjunct1] by simp
  have b: "0 \<le> (progressUpdate 1 1 ^^ 1) 0 \<and> (progressUpdate 1 1 ^^ 1) 0 \<le> 1"
    using t [THEN conjunct2, THEN conjunct1] by blast
  have c0: "\<forall>eps>0. \<exists>N. \<forall>n\<ge>N. \<bar>(progressUpdate 1 1 ^^ n) 0 - 1\<bar> < eps"
    using t [THEN conjunct2, THEN conjunct2, THEN conjunct2, THEN conjunct2] by simp
  have c: "\<exists>N. \<forall>n\<ge>N. \<bar>(progressUpdate 1 1 ^^ n) 0 - 1\<bar> < 1 / 100"
    using c0 [rule_format, of "1 / 100"] by simp
  show ?thesis using a b c by simp
qed

text \<open>
  C3 as stated fails at \<open>delta = 0\<close>, which the claim admits: the smoothing factor is
  \<open>1 - exp 0 = 0\<close>, the progress 0 never moves, and it never comes within 1/2 of the
  target 1.
\<close>

theorem progress_stalls_counterexample:
  "progressUpdate 1 0 0 = 0
   \<and> (\<forall>n. (progressUpdate 1 0 ^^ n) 0 = 0)
   \<and> \<not> (\<exists>N. \<forall>n\<ge>N. \<bar>(progressUpdate 1 0 ^^ n) 0 - 1\<bar> < 1 / 2)"
proof -
  have s: "(progressUpdate 1 0 ^^ n) 0 = 0" for n
    by (rule progress_stuck)
  have "\<not> (\<exists>N. \<forall>n\<ge>N. \<bar>(progressUpdate 1 0 ^^ n) 0 - 1\<bar> < 1 / 2)"
    by (simp add: s) (use le_refl in blast)
  moreover have "progressUpdate 1 0 0 = 0"
    using s [of 1] by simp
  ultimately show ?thesis using s by blast
qed
section \<open>Geometry merge: properties\<close>

lemma countTotals_fold:
  "fold (\<lambda>g (vertexCount, indexCount).
             (vertexCount + attr_count (position g),
              (case index g of None \<Rightarrow> indexCount | Some ix \<Rightarrow> indexCount + attr_count ix)))
          gs (v, i) = (v + totalVertices gs, i + totalIndices gs)"
  by (induction gs arbitrary: v i)
     (auto simp: totalVertices_def totalIndices_def split: option.splits)

lemma countTotals_eq: "countTotals gs = (totalVertices gs, totalIndices gs)"
  using countTotals_fold [of gs 0 0] by (simp add: countTotals_def)

lemma float32Set_fill:
  assumes "length pre = off" and "length src = k"
  shows "float32Set fround (pre @ replicate (k + r) z) src off
       = Inr (pre @ map fround src @ replicate r z)"
  using assms by (simp add: float32Set_def)

lemma optSet_fits:
  assumes "optFits a off (length target)"
  shows "\<exists>res. optSet fround target a off = Inr res \<and> length res = length target"
  using assms
  by (auto simp: optFits_def optSet_def float32Set_def split: option.splits)

lemma optSet_overflow:
  assumes "\<not> optFits a off (length target)"
  shows "optSet fround target a off = Inl RangeError"
  using assms
  by (auto simp: optFits_def optSet_def float32Set_def split: option.splits)

lemma fold_update_fill:
  "fold (\<lambda>i a. a[length pre + i := f i]) [0..<k] (pre @ replicate (k + r) z)
     = pre @ map f [0..<k] @ replicate r z"
proof (induction k arbitrary: r)
  case 0
  show ?case by simp
next
  case (Suc k)
  have "fold (\<lambda>i a. a[length pre + i := f i]) [0..<Suc k] (pre @ replicate (Suc k + r) z)
      = (fold (\<lambda>i a. a[length pre + i := f i]) [0..<k] (pre @ replicate (k + Suc r) z))
          [length pre + k := f k]"
    by simp
  also have "\<dots> = (pre @ map f [0..<k] @ replicate (Suc r) z)[length pre + k := f k]"
    by (simp only: Suc.IH)
  also have "\<dots> = pre @ map f [0..<k] @ (f k # replicate r z)"
    by (simp add: list_update_append)
  finally show ?case by simp
qed

lemma indexLoop_fill:
  assumes "attr_count ix = length (attr_array ix)" and "length pre = iOff"
  shows "indexLoop ix vOff iOff (pre @ replicate (attr_count ix + r) 0)
       = pre @ map (\<lambda>v. (v + vOff) mod 2 ^ 32) (attr_array ix) @ replicate r 0"
proof -
  let ?f = "\<lambda>i. if i < length (attr_array ix) then (attr_array ix ! i + vOff) mod 2 ^ 32 else 0"
  have "indexLoop ix vOff iOff (pre @ replicate (attr_count ix + r) 0)
      = pre @ map ?f [0..<attr_count ix] @ replicate r 0"
    unfolding indexLoop_def assms(2) [symmetric] by (rule fold_update_fill)
  moreover have "map ?f [0..<attr_count ix] = map (\<lambda>v. (v + vOff) mod 2 ^ 32) (attr_array ix)"
    by (rule nth_equalityI) (simp_all add: assms(1))
  ultimately show ?thesis by simp
qed

text \<open>One geometry whose optional attributes fit: the step succeeds.\<close>

lemma mergeStep_ok:
  assumes wf: "wf_geometry g"
    and pos: "positionArray st = P @ replicate (3 * attr_count (position g) + r) 0"
             "length P = vOffset st * 3"
    and nrm: "length (normalArray st) = room * 3"
    and uvl: "length (uvArray st) = room * 2"
    and col: "length (colorArray st) = room * 3"
    and fit: "fitsAt g (vOffset st) room"
    and idx: "indexArray st = None
              \<or> (indexArray st = Some (I @ replicate (indexCountOf g + ti) 0) \<and> length I = iOffset st)"
  shows "\<exists>st1. mergeStep fround g st = Inr st1
     \<and> positionArray st1 = (P @ map fround (attr_array (position g))) @ replicate r 0
     \<and> vOffset st1 = vOffset st + attr_count (position g)
     \<and> length (normalArray st1) = length (normalArray st)
     \<and> length (uvArray st1) = length (uvArray st)
     \<and> length (colorArray st1) = length (colorArray st)
     \<and> (indexArray st = None \<longrightarrow> indexArray st1 = None)
     \<and> (indexArray st \<noteq> None \<longrightarrow>
          indexArray st1 = Some ((I @ map (\<lambda>v. v mod 2 ^ 32) (shiftedOf g (vOffset st))) @ replicate ti 0)
          \<and> iOffset st1 = iOffset st + indexCountOf g)"
proof -
  have plen: "length (attr_array (position g)) = 3 * attr_count (position g)"
    using wf by (simp add: wf_geometry_def)
  have pa: "float32Set fround (positionArray st) (attr_array (position g)) (vOffset st * 3)
          = Inr (P @ map fround (attr_array (position g)) @ replicate r 0)"
    unfolding pos(1) using pos(2) plen by (intro float32Set_fill) simp_all
  have fn: "optFits (normal g) (vOffset st * 3) (length (normalArray st))"
    and fu: "optFits (uv g) (vOffset st * 2) (length (uvArray st))"
    and fc: "optFits (color g) (vOffset st * 3) (length (colorArray st))"
    using fit nrm uvl col by (simp_all add: fitsAt_def)
  obtain na where na: "optSet fround (normalArray st) (normal g) (vOffset st * 3) = Inr na"
      "length na = length (normalArray st)"
    using optSet_fits [OF fn] by blast
  obtain ua where ua: "optSet fround (uvArray st) (uv g) (vOffset st * 2) = Inr ua"
      "length ua = length (uvArray st)"
    using optSet_fits [OF fu] by blast
  obtain ca where ca: "optSet fround (colorArray st) (color g) (vOffset st * 3) = Inr ca"
      "length ca = length (colorArray st)"
    using optSet_fits [OF fc] by blast
  show ?thesis
  proof (cases "index g")
    case None
    then have sh: "shiftedOf g (vOffset st) = []" "indexCountOf g = 0"
      by (simp_all add: shiftedOf_def indexCountOf_def)
    show ?thesis
      using idx
      by (auto simp: mergeStep_def pa na ua ca None sh Let_def)
  next
    case (Some ix)
    then have sh: "shiftedOf g (vOffset st) = map (\<lambda>v. v + vOffset st) (attr_array ix)"
        "indexCountOf g = attr_count ix"
      by (simp_all add: shiftedOf_def indexCountOf_def)
    have ixc: "attr_count ix = length (attr_array ix)"
      using wf Some by (simp add: wf_geometry_def)
    show ?thesis
    proof (cases "indexArray st")
      case None
      then show ?thesis
        by (simp add: mergeStep_def pa na ua ca Some Let_def)
    next
      case (Some a)
      then have a: "a = I @ replicate (attr_count ix + ti) 0" "length I = iOffset st"
        using idx sh(2) by simp_all
      have il: "indexLoop ix (vOffset st) (iOffset st) a
          = I @ map (\<lambda>v. (v + vOffset st) mod 2 ^ 32) (attr_array ix) @ replicate ti 0"
        unfolding a(1) using ixc a(2) by (rule indexLoop_fill)
      show ?thesis
        by (simp add: mergeStep_def pa na ua ca \<open>index g = Some ix\<close> Some Let_def il sh comp_def)
    qed
  qed
qed

text \<open>One geometry with an optional attribute that does not fit: the step raises.\<close>

lemma mergeStep_overflow:
  assumes wf: "wf_geometry g"
    and pos: "positionArray st = P @ replicate (3 * attr_count (position g) + r) 0"
             "length P = vOffset st * 3"
    and nrm: "length (normalArray st) = room * 3"
    and uvl: "length (uvArray st) = room * 2"
    and col: "length (colorArray st) = room * 3"
    and fit: "\<not> fitsAt g (vOffset st) room"
  shows "mergeStep fround g st = Inl RangeError"
proof -
  have plen: "length (attr_array (position g)) = 3 * attr_count (position g)"
    using wf by (simp add: wf_geometry_def)
  have pa: "float32Set fround (positionArray st) (attr_array (position g)) (vOffset st * 3)
          = Inr (P @ map fround (attr_array (position g)) @ replicate r 0)"
    unfolding pos(1) using pos(2) plen by (intro float32Set_fill) simp_all
  consider (n) "\<not> optFits (normal g) (vOffset st * 3) (length (normalArray st))"
    | (u) "optFits (normal g) (vOffset st * 3) (length (normalArray st))"
          "\<not> optFits (uv g) (vOffset st * 2) (length (uvArray st))"
    | (c) "optFits (normal g) (vOffset st * 3) (length (normalArray st))"
          "optFits (uv g) (vOffset st * 2) (length (uvArray st))"
          "\<not> optFits (color g) (vOffset st * 3) (length (colorArray st))"
    using fit nrm uvl col by (auto simp: fitsAt_def)
  then show ?thesis
  proof cases
    case n
    show ?thesis
      by (simp add: mergeStep_def pa optSet_overflow [OF n])
  next
    case u
    obtain na where na: "optSet fround (normalArray st) (normal g) (vOffset st * 3) = Inr na"
      using optSet_fits [OF u(1)] by blast
    show ?thesis
      by (simp add: mergeStep_def pa na optSet_overflow [OF u(2)])
  next
    case c
    obtain na where na: "optSet fround (normalArray st) (normal g) (vOffset st * 3) = Inr na"
      using optSet_fits [OF c(1)] by blast
    obtain ua where ua: "optSet fround (uvArray st) (uv g) (vOffset st * 2) = Inr ua"
      using optSet_fits [OF c(2)] by blast
    show ?thesis
      by (simp add: mergeStep_def pa na ua optSet_overflow [OF c(3)])
  qed
qed

lemma totals_Cons:
  "totalVertices (g # gs) = attr_count (position g) + totalVertices gs"
  "totalIndices (g # gs) = indexCountOf g + totalIndices gs"
  by (simp_all add: totalVertices_def totalIndices_def indexCountOf_def)

lemma expectedIndex_Cons:
  "expectedIndex (g # gs) off = shiftedOf g off @ expectedIndex gs (off + attr_count (position g))"
  by (simp add: shiftedOf_def)

lemma shiftedOf_length: "wf_geometry g \<Longrightarrow> length (shiftedOf g off) = indexCountOf g"
  by (auto simp: shiftedOf_def indexCountOf_def wf_geometry_def split: option.splits)

lemma mergeLoop_ok:
  assumes "\<forall>g\<in>set gs. wf_geometry g"
    and "positionArray st = P @ replicate (3 * totalVertices gs) 0"
    and "length P = vOffset st * 3"
    and "length (normalArray st) = room * 3"
    and "length (uvArray st) = room * 2"
    and "length (colorArray st) = room * 3"
    and "attrsFit gs (vOffset st) room"
    and "indexArray st = None
         \<or> (indexArray st = Some (I @ replicate (totalIndices gs) 0) \<and> length I = iOffset st)"
  shows "\<exists>st'. mergeLoop fround gs st = Inr st'
     \<and> positionArray st' = P @ map fround (concat (map (\<lambda>g. attr_array (position g)) gs))
     \<and> (indexArray st = None \<longrightarrow> indexArray st' = None)
     \<and> (indexArray st \<noteq> None \<longrightarrow>
           indexArray st' = Some (I @ map (\<lambda>v. v mod 2 ^ 32) (expectedIndex gs (vOffset st))))"
  using assms
proof (induction gs arbitrary: st P I)
  case Nil
  then show ?case by (auto simp: totalVertices_def totalIndices_def)
next
  case (Cons g gs)
  have wf: "wf_geometry g" and wfs: "\<forall>g\<in>set gs. wf_geometry g"
    using Cons.prems(1) by simp_all
  have pos: "positionArray st = P @ replicate (3 * attr_count (position g) + 3 * totalVertices gs) 0"
    using Cons.prems(2) by (simp add: totals_Cons algebra_simps)
  have fit: "fitsAt g (vOffset st) room"
    and fits: "attrsFit gs (vOffset st + attr_count (position g)) room"
    using Cons.prems(7) by simp_all
  have idx: "indexArray st = None
      \<or> (indexArray st = Some (I @ replicate (indexCountOf g + totalIndices gs) 0) \<and> length I = iOffset st)"
    using Cons.prems(8) by (simp add: totals_Cons)
  from mergeStep_ok [OF wf pos Cons.prems(3,4,5,6) fit idx]
  obtain st1 where big: "mergeStep fround g st = Inr st1
     \<and> positionArray st1 = (P @ map fround (attr_array (position g))) @ replicate (3 * totalVertices gs) 0
     \<and> vOffset st1 = vOffset st + attr_count (position g)
     \<and> length (normalArray st1) = length (normalArray st)
     \<and> length (uvArray st1) = length (uvArray st)
     \<and> length (colorArray st1) = length (colorArray st)
     \<and> (indexArray st = None \<longrightarrow> indexArray st1 = None)
     \<and> (indexArray st \<noteq> None \<longrightarrow>
          indexArray st1 = Some ((I @ map (\<lambda>v. v mod 2 ^ 32) (shiftedOf g (vOffset st))) @ replicate (totalIndices gs) 0)
          \<and> iOffset st1 = iOffset st + indexCountOf g)"
    by (rule exE)
  note st1 = big [THEN conjunct1] big [THEN conjunct2, THEN conjunct1]
    big [THEN conjunct2, THEN conjunct2, THEN conjunct1]
    big [THEN conjunct2, THEN conjunct2, THEN conjunct2, THEN conjunct1]
    big [THEN conjunct2, THEN conjunct2, THEN conjunct2, THEN conjunct2, THEN conjunct1]
    big [THEN conjunct2, THEN conjunct2, THEN conjunct2, THEN conjunct2, THEN conjunct2, THEN conjunct1]
    big [THEN conjunct2, THEN conjunct2, THEN conjunct2, THEN conjunct2, THEN conjunct2, THEN conjunct2, THEN conjunct1]
    big [THEN conjunct2, THEN conjunct2, THEN conjunct2, THEN conjunct2, THEN conjunct2, THEN conjunct2, THEN conjunct2]
  have plen: "length (attr_array (position g)) = 3 * attr_count (position g)"
    using wf by (simp add: wf_geometry_def)
  let ?P = "P @ map fround (attr_array (position g))"
  let ?I = "I @ map (\<lambda>v. v mod 2 ^ 32) (shiftedOf g (vOffset st))"
  have l1: "length ?P = vOffset st1 * 3"
    using Cons.prems(3) plen st1(3) by simp
  have n1: "length (normalArray st1) = room * 3"
    using st1(4) Cons.prems(4) by simp
  have u1: "length (uvArray st1) = room * 2"
    using st1(5) Cons.prems(5) by simp
  have c1: "length (colorArray st1) = room * 3"
    using st1(6) Cons.prems(6) by simp
  have f1: "attrsFit gs (vOffset st1) room"
    using fits st1(3) by simp
  have i1: "indexArray st1 = None
      \<or> (indexArray st1 = Some (?I @ replicate (totalIndices gs) 0) \<and> length ?I = iOffset st1)"
  proof (cases "indexArray st")
    case None
    then show ?thesis using st1(7) by simp
  next
    case (Some a)
    then have "length I = iOffset st" using Cons.prems(8) by simp
    then show ?thesis using st1(8) Some shiftedOf_length [OF wf] by simp
  qed
  from Cons.IH [OF wfs st1(2) l1 n1 u1 c1 f1 i1]
  obtain st' where big': "mergeLoop fround gs st1 = Inr st'
     \<and> positionArray st' = ?P @ map fround (concat (map (\<lambda>g. attr_array (position g)) gs))
     \<and> (indexArray st1 = None \<longrightarrow> indexArray st' = None)
     \<and> (indexArray st1 \<noteq> None \<longrightarrow>
           indexArray st' = Some (?I @ map (\<lambda>v. v mod 2 ^ 32) (expectedIndex gs (vOffset st1))))"
    by (rule exE)
  note st' = big' [THEN conjunct1] big' [THEN conjunct2, THEN conjunct1]
    big' [THEN conjunct2, THEN conjunct2, THEN conjunct1]
    big' [THEN conjunct2, THEN conjunct2, THEN conjunct2]
  have "mergeLoop fround (g # gs) st = Inr st'"
    using st1(1) st'(1) by simp
  moreover have "positionArray st'
       = P @ map fround (concat (map (\<lambda>g. attr_array (position g)) (g # gs)))"
    using st'(2) by simp
  moreover have "indexArray st = None \<longrightarrow> indexArray st' = None"
    using st1(7) st'(3) by simp
  moreover have "indexArray st \<noteq> None \<longrightarrow>
       indexArray st' = Some (I @ map (\<lambda>v. v mod 2 ^ 32) (expectedIndex (g # gs) (vOffset st)))"
    using st1(8) st'(4) st1(3) by (simp add: expectedIndex_Cons del: expectedIndex.simps)
  ultimately show ?case by (intro exI [of _ st'] conjI)
qed

lemma mergeLoop_overflow:
  assumes "\<forall>g\<in>set gs. wf_geometry g"
    and "positionArray st = P @ replicate (3 * totalVertices gs) 0"
    and "length P = vOffset st * 3"
    and "length (normalArray st) = room * 3"
    and "length (uvArray st) = room * 2"
    and "length (colorArray st) = room * 3"
    and "\<not> attrsFit gs (vOffset st) room"
    and "indexArray st = None
         \<or> (indexArray st = Some (I @ replicate (totalIndices gs) 0) \<and> length I = iOffset st)"
  shows "mergeLoop fround gs st = Inl RangeError"
  using assms
proof (induction gs arbitrary: st P I)
  case Nil
  then show ?case by simp
next
  case (Cons g gs)
  have wf: "wf_geometry g" and wfs: "\<forall>g\<in>set gs. wf_geometry g"
    using Cons.prems(1) by simp_all
  have pos: "positionArray st = P @ replicate (3 * attr_count (position g) + 3 * totalVertices gs) 0"
    using Cons.prems(2) by (simp add: totals_Cons algebra_simps)
  show ?case
  proof (cases "fitsAt g (vOffset st) room")
    case False
    have "mergeStep fround g st = Inl RangeError"
      using wf pos Cons.prems(3,4,5,6) False by (rule mergeStep_overflow)
    then show ?thesis by simp
  next
    case True
    then have rest: "\<not> attrsFit gs (vOffset st + attr_count (position g)) room"
      using Cons.prems(7) by simp
    have idx: "indexArray st = None
        \<or> (indexArray st = Some (I @ replicate (indexCountOf g + totalIndices gs) 0) \<and> length I = iOffset st)"
      using Cons.prems(8) by (simp add: totals_Cons)
    from mergeStep_ok [OF wf pos Cons.prems(3,4,5,6) True idx]
    obtain st1 where big: "mergeStep fround g st = Inr st1
       \<and> positionArray st1 = (P @ map fround (attr_array (position g))) @ replicate (3 * totalVertices gs) 0
       \<and> vOffset st1 = vOffset st + attr_count (position g)
       \<and> length (normalArray st1) = length (normalArray st)
       \<and> length (uvArray st1) = length (uvArray st)
       \<and> length (colorArray st1) = length (colorArray st)
       \<and> (indexArray st = None \<longrightarrow> indexArray st1 = None)
       \<and> (indexArray st \<noteq> None \<longrightarrow>
            indexArray st1 = Some ((I @ map (\<lambda>v. v mod 2 ^ 32) (shiftedOf g (vOffset st))) @ replicate (totalIndices gs) 0)
            \<and> iOffset st1 = iOffset st + indexCountOf g)"
      by (rule exE)
    note st1 = big [THEN conjunct1] big [THEN conjunct2, THEN conjunct1]
      big [THEN conjunct2, THEN conjunct2, THEN conjunct1]
      big [THEN conjunct2, THEN conjunct2, THEN conjunct2, THEN conjunct1]
      big [THEN conjunct2, THEN conjunct2, THEN conjunct2, THEN conjunct2, THEN conjunct1]
      big [THEN conjunct2, THEN conjunct2, THEN conjunct2, THEN conjunct2, THEN conjunct2, THEN conjunct1]
      big [THEN conjunct2, THEN conjunct2, THEN conjunct2, THEN conjunct2, THEN conjunct2, THEN conjunct2, THEN conjunct1]
      big [THEN conjunct2, THEN conjunct2, THEN conjunct2, THEN conjunct2, THEN conjunct2, THEN conjunct2, THEN conjunct2]
    have plen: "length (attr_array (position g)) = 3 * attr_count (position g)"
      using wf by (simp add: wf_geometry_def)
    let ?P = "P @ map fround (attr_array (position g))"
    let ?I = "I @ map (\<lambda>v. v mod 2 ^ 32) (shiftedOf g (vOffset st))"
    have l1: "length ?P = vOffset st1 * 3"
      using Cons.prems(3) plen st1(3) by simp
    have n1: "length (normalArray st1) = room * 3"
      using st1(4) Cons.prems(4) by simp
    have u1: "length (uvArray st1) = room * 2"
      using st1(5) Cons.prems(5) by simp
    have c1: "length (colorArray st1) = room * 3"
      using st1(6) Cons.prems(6) by simp
    have f1: "\<not> attrsFit gs (vOffset st1) room"
      using rest st1(3) by simp
    have i1: "indexArray st1 = None
        \<or> (indexArray st1 = Some (?I @ replicate (totalIndices gs) 0) \<and> length ?I = iOffset st1)"
    proof (cases "indexArray st")
      case None
      then show ?thesis using st1(7) by simp
    next
      case (Some a)
      then have "length I = iOffset st" using Cons.prems(8) by simp
      then show ?thesis using st1(8) Some shiftedOf_length [OF wf] by simp
    qed
    have "mergeLoop fround gs st1 = Inl RangeError"
      using wfs st1(2) l1 n1 u1 c1 f1 i1 by (rule Cons.IH)
    then show ?thesis using st1(1) by simp
  qed
qed

lemma concat_position_length:
  "\<forall>g\<in>set gs. wf_geometry g \<Longrightarrow>
   length (concat (map (\<lambda>g. attr_array (position g)) gs)) = 3 * totalVertices gs"
proof (induction gs)
  case Nil
  show ?case by (simp add: totalVertices_def)
next
  case (Cons g gs)
  then show ?case by (simp add: totals_Cons wf_geometry_def)
qed

lemma expectedIndex_length:
  "\<forall>g\<in>set gs. wf_geometry g \<Longrightarrow> length (expectedIndex gs off) = totalIndices gs"
proof (induction gs arbitrary: off)
  case Nil
  show ?case by (simp add: totalIndices_def)
next
  case (Cons g gs)
  then have "length (expectedIndex gs (off + attr_count (position g))) = totalIndices gs"
    by simp
  moreover have "length (shiftedOf g off) = indexCountOf g"
    using Cons.prems by (simp add: shiftedOf_length)
  ultimately show ?case
    by (simp only: expectedIndex_Cons totals_Cons length_append)
qed

lemma mergeLoop_start:
  assumes "\<forall>g\<in>set gs. wf_geometry g" and "attrsFit gs 0 (totalVertices gs)"
  defines "st0 \<equiv> \<lparr> positionArray = replicate (totalVertices gs * 3) 0,
                  normalArray = replicate (totalVertices gs * 3) 0,
                  uvArray = replicate (totalVertices gs * 2) 0,
                  colorArray = replicate (totalVertices gs * 3) 0,
                  indexArray = (if totalIndices gs > 0 then Some (replicate (totalIndices gs) 0) else None),
                  vOffset = 0, iOffset = 0 \<rparr>"
  shows "\<exists>st'. mergeLoop fround gs st0 = Inr st'
     \<and> positionArray st' = map fround (concat (map (\<lambda>g. attr_array (position g)) gs))
     \<and> indexArray st' = (if totalIndices gs > 0
                           then Some (map (\<lambda>v. v mod 2 ^ 32) (expectedIndex gs 0)) else None)"
proof -
  have p: "positionArray st0 = [] @ replicate (3 * totalVertices gs) 0"
    by (simp add: st0_def mult.commute)
  have l: "length ([] :: real list) = vOffset st0 * 3"
    by (simp add: st0_def)
  have n: "length (normalArray st0) = totalVertices gs * 3"
    by (simp add: st0_def)
  have u: "length (uvArray st0) = totalVertices gs * 2"
    by (simp add: st0_def)
  have c: "length (colorArray st0) = totalVertices gs * 3"
    by (simp add: st0_def)
  have f: "attrsFit gs (vOffset st0) (totalVertices gs)"
    using assms(2) by (simp add: st0_def)
  have i: "indexArray st0 = None
         \<or> (indexArray st0 = Some ([] @ replicate (totalIndices gs) 0) \<and> length ([] :: nat list) = iOffset st0)"
    by (simp add: st0_def)
  from mergeLoop_ok [OF assms(1) p l n u c f i]
  obtain st' where big: "mergeLoop fround gs st0 = Inr st'
     \<and> positionArray st' = [] @ map fround (concat (map (\<lambda>g. attr_array (position g)) gs))
     \<and> (indexArray st0 = None \<longrightarrow> indexArray st' = None)
     \<and> (indexArray st0 \<noteq> None \<longrightarrow>
           indexArray st' = Some ([] @ map (\<lambda>v. v mod 2 ^ 32) (expectedIndex gs (vOffset st0))))"
    by (rule exE)
  note st' = big [THEN conjunct1] big [THEN conjunct2, THEN conjunct1]
    big [THEN conjunct2, THEN conjunct2, THEN conjunct1]
    big [THEN conjunct2, THEN conjunct2, THEN conjunct2]
  have v0: "vOffset st0 = 0" by (simp add: st0_def)
  have "indexArray st' = (if totalIndices gs > 0
                           then Some (map (\<lambda>v. v mod 2 ^ 32) (expectedIndex gs 0)) else None)"
  proof (cases "0 < totalIndices gs")
    case True
    then have "indexArray st0 \<noteq> None" by (simp add: st0_def)
    then show ?thesis using st'(4) True v0 by simp
  next
    case False
    then have "indexArray st0 = None" by (simp add: st0_def)
    then show ?thesis using st'(3) False by simp
  qed
  then show ?thesis using st'(1,2) by (intro exI [of _ st']) simp
qed

text \<open>
  The condition on the optional attributes is exactly what the merge needs in order to
  return: when one of them does not fit, the typed-array set raises.
\<close>

lemma merge_raises_unless_fit:
  assumes "\<forall>g\<in>set gs. wf_geometry g" and "\<not> attrsFit gs 0 (totalVertices gs)"
  shows "mergeBufferGeometries fround gs = Inl RangeError"
proof -
  let ?st0 = "\<lparr> positionArray = replicate (totalVertices gs * 3) 0,
                  normalArray = replicate (totalVertices gs * 3) 0,
                  uvArray = replicate (totalVertices gs * 2) 0,
                  colorArray = replicate (totalVertices gs * 3) 0,
                  indexArray = (if totalIndices gs > 0 then Some (replicate (totalIndices gs) 0) else None),
                  vOffset = 0, iOffset = 0 \<rparr>"
  have p: "positionArray ?st0 = [] @ replicate (3 * totalVertices gs) 0"
    by (simp add: mult.commute)
  have l: "length ([] :: real list) = vOffset ?st0 * 3"
    by simp
  have n: "length (normalArray ?st0) = totalVertices gs * 3"
    by simp
  have u: "length (uvArray ?st0) = totalVertices gs * 2"
    by simp
  have c: "length (colorArray ?st0) = totalVertices gs * 3"
    by simp
  have f: "\<not> attrsFit gs (vOffset ?st0) (totalVertices gs)"
    using assms(2) by simp
  have i: "indexArray ?st0 = None
         \<or> (indexArray ?st0 = Some ([] @ replicate (totalIndices gs) 0) \<and> length ([] :: nat list) = iOffset ?st0)"
    by simp
  have "mergeLoop fround gs ?st0 = Inl RangeError"
    using assms(1) p l n u c f i by (rule mergeLoop_overflow)
  then show ?thesis
    by (simp add: mergeBufferGeometries_def countTotals_eq)
qed

text \<open>A normal array longer than the room left in the merged normal array raises.\<close>

lemma merge_mismatch_raises:
  "wf_geometry longNormal \<and> \<not> attrsFit [longNormal] 0 (totalVertices [longNormal])
   \<and> mergeBufferGeometries fround [longNormal] = Inl RangeError"
proof -
  have w: "wf_geometry longNormal"
    by (simp add: wf_geometry_def longNormal_def triPlain_def)
  have f: "\<not> attrsFit [longNormal] 0 (totalVertices [longNormal])"
    by (simp add: fitsAt_def optFits_def totalVertices_def longNormal_def triPlain_def)
  have "\<forall>g\<in>set [longNormal]. wf_geometry g" using w by simp
  from merge_raises_unless_fit [OF this f] w f show ?thesis by simp
qed

text \<open>
  C10, as amended. For input geometries whose position and index counts are those of
  their arrays and whose normal, uv and color arrays fit into the merged arrays, the
  merge returns a geometry whose position attribute counts the sum of the inputs' vertex
  counts and holds the inputs' position arrays in order, every number rounded by the
  store into the Float32Array (so the concatenation itself when the inputs hold
  single-precision numbers); its index is present exactly when the inputs' indices
  hold at least one entry in total, and then it is the inputs' indices in order, each
  entry shifted by the vertex count of all the geometries before it (stored modulo
  \<open>2 ^ 32\<close>, so as they are when they fit in 32 bits).
\<close>

theorem merge_concatenates:
  assumes "\<forall>g\<in>set gs. wf_geometry g" and "attrsFit gs 0 (totalVertices gs)"
  shows "\<exists>m. mergeBufferGeometries fround gs = Inr m
    \<and> attr_count (position m) = totalVertices gs
    \<and> attr_array (position m) = map fround (concat (map (\<lambda>g. attr_array (position g)) gs))
    \<and> ((\<forall>v\<in>set (concat (map (\<lambda>g. attr_array (position g)) gs)). fround v = v) \<longrightarrow>
          attr_array (position m) = concat (map (\<lambda>g. attr_array (position g)) gs))
    \<and> (index m \<noteq> None) = (0 < totalIndices gs)
    \<and> (0 < totalIndices gs \<longrightarrow>
          index m = Some \<lparr> attr_array = map (\<lambda>v. v mod 2 ^ 32) (expectedIndex gs 0),
                           attr_count = totalIndices gs \<rparr>)
    \<and> ((\<forall>v\<in>set (expectedIndex gs 0). v < 2 ^ 32) \<longrightarrow> 0 < totalIndices gs \<longrightarrow>
          index m = Some \<lparr> attr_array = expectedIndex gs 0, attr_count = totalIndices gs \<rparr>)"
proof -
  from mergeLoop_start [OF assms]
  obtain st' where big: "mergeLoop fround gs \<lparr> positionArray = replicate (totalVertices gs * 3) 0,
                  normalArray = replicate (totalVertices gs * 3) 0,
                  uvArray = replicate (totalVertices gs * 2) 0,
                  colorArray = replicate (totalVertices gs * 3) 0,
                  indexArray = (if totalIndices gs > 0 then Some (replicate (totalIndices gs) 0) else None),
                  vOffset = 0, iOffset = 0 \<rparr> = Inr st'
     \<and> positionArray st' = map fround (concat (map (\<lambda>g. attr_array (position g)) gs))
     \<and> indexArray st' = (if totalIndices gs > 0
                           then Some (map (\<lambda>v. v mod 2 ^ 32) (expectedIndex gs 0)) else None)"
    by (rule exE)
  note st' = big [THEN conjunct1] big [THEN conjunct2, THEN conjunct1] big [THEN conjunct2, THEN conjunct2]
  define m where "m = \<lparr> position = \<lparr>attr_array = positionArray st',
                                attr_count = length (positionArray st') div 3\<rparr>,
                   normal = Some \<lparr>attr_array = normalArray st',
                                   attr_count = length (normalArray st') div 3\<rparr>,
                   uv = Some \<lparr>attr_array = uvArray st',
                               attr_count = length (uvArray st') div 2\<rparr>,
                   color = Some \<lparr>attr_array = colorArray st',
                                  attr_count = length (colorArray st') div 3\<rparr>,
                   index = (case indexArray st' of
                              None \<Rightarrow> None
                            | Some a \<Rightarrow> Some \<lparr>attr_array = a, attr_count = length a\<rparr>) \<rparr>"
  have m: "mergeBufferGeometries fround gs = Inr m"
    using st'(1) by (simp add: mergeBufferGeometries_def countTotals_eq m_def)
  have c: "attr_count (position m) = totalVertices gs"
    using st'(2) concat_position_length [OF assms(1)] by (simp add: m_def)
  have a: "attr_array (position m) = map fround (concat (map (\<lambda>g. attr_array (position g)) gs))"
    using st'(2) by (simp add: m_def)
  have a32: "attr_array (position m) = concat (map (\<lambda>g. attr_array (position g)) gs)"
    if "\<forall>v\<in>set (concat (map (\<lambda>g. attr_array (position g)) gs)). fround v = v"
    unfolding a using that by (intro map_idI) blast
  have len: "length (expectedIndex gs 0) = totalIndices gs"
    using expectedIndex_length [OF assms(1)] .
  have i0: "(index m \<noteq> None) = (0 < totalIndices gs)"
    by (simp add: m_def st'(3))
  have i1: "index m = Some \<lparr> attr_array = map (\<lambda>v. v mod 2 ^ 32) (expectedIndex gs 0),
                           attr_count = totalIndices gs \<rparr>" if "0 < totalIndices gs"
    using that len by (simp add: m_def st'(3))
  have fit: "map (\<lambda>v. v mod 2 ^ 32) (expectedIndex gs 0) = expectedIndex gs 0"
    if "\<forall>v\<in>set (expectedIndex gs 0). v < 2 ^ 32"
    using that by (intro map_idI) simp
  have i2: "index m = Some \<lparr> attr_array = expectedIndex gs 0, attr_count = totalIndices gs \<rparr>"
    if "\<forall>v\<in>set (expectedIndex gs 0). v < 2 ^ 32" "0 < totalIndices gs"
    using i1 [OF that(2)] fit [OF that(1)] by simp
  show ?thesis
    using m c a a32 i0 i1 i2 by (intro exI [of _ m] conjI impI)
qed

theorem merge_concatenates_witness:
  "wf_geometry triIndexed \<and> wf_geometry shortNormal
   \<and> attrsFit [triIndexed, shortNormal, triIndexed] 0 (totalVertices [triIndexed, shortNormal, triIndexed])
   \<and> (\<forall>fround.
        map_sum id (\<lambda>m. (attr_count (position m), attr_array (position m), map_option attr_array (index m)))
          (mergeBufferGeometries fround [triIndexed, shortNormal, triIndexed])
        = Inr (9, map fround [0, 0, 0, 1, 0, 0, 0, 1, 0, 5, 5, 5, 6, 5, 5, 5, 6, 5, 0, 0, 0, 1, 0, 0, 0, 1, 0],
               Some [0, 1, 2, 6, 7, 8]))"
proof -
  let ?gs = "[triIndexed, shortNormal, triIndexed]"
  have w: "wf_geometry triIndexed" "wf_geometry shortNormal"
    by (simp_all add: wf_geometry_def triIndexed_def shortNormal_def triPlain_def)
  then have wf: "\<forall>g\<in>set ?gs. wf_geometry g"
    by simp
  have tv: "totalVertices ?gs = 9"
    by (simp add: totalVertices_def triIndexed_def shortNormal_def triPlain_def)
  have ti: "totalIndices ?gs = 6"
    by (simp add: totalIndices_def triIndexed_def shortNormal_def triPlain_def)
  have ei: "expectedIndex ?gs 0 = [0, 1, 2, 6, 7, 8]"
    by (simp add: triIndexed_def shortNormal_def triPlain_def)
  have cc: "concat (map (\<lambda>g. attr_array (position g)) ?gs)
      = [0, 0, 0, 1, 0, 0, 0, 1, 0, 5, 5, 5, 6, 5, 5, 5, 6, 5, 0, 0, 0, 1, 0, 0, 0, 1, 0]"
    by (simp add: triIndexed_def shortNormal_def triPlain_def)
  have af: "attrsFit ?gs 0 (totalVertices ?gs)"
    unfolding tv by (simp add: fitsAt_def optFits_def triIndexed_def shortNormal_def triPlain_def)
  have "map_sum id (\<lambda>m. (attr_count (position m), attr_array (position m), map_option attr_array (index m)))
          (mergeBufferGeometries fround ?gs)
        = Inr (9, map fround [0, 0, 0, 1, 0, 0, 0, 1, 0, 5, 5, 5, 6, 5, 5, 5, 6, 5, 0, 0, 0, 1, 0, 0, 0, 1, 0],
               Some [0, 1, 2, 6, 7, 8])" for fround
  proof -
    from merge_concatenates [OF wf af, of fround]
    obtain m where big: "mergeBufferGeometries fround ?gs = Inr m
      \<and> attr_count (position m) = totalVertices ?gs
      \<and> attr_array (position m) = map fround (concat (map (\<lambda>g. attr_array (position g)) ?gs))
      \<and> ((\<forall>v\<in>set (concat (map (\<lambda>g. attr_array (position g)) ?gs)). fround v = v) \<longrightarrow>
            attr_array (position m) = concat (map (\<lambda>g. attr_array (position g)) ?gs))
      \<and> (index m \<noteq> None) = (0 < totalIndices ?gs)
      \<and> (0 < totalIndices ?gs \<longrightarrow>
            index m = Some \<lparr> attr_array = map (\<lambda>v. v mod 2 ^ 32) (expectedIndex ?gs 0),
                             attr_count = totalIndices ?gs \<rparr>)
      \<and> ((\<forall>v\<in>set (expectedIndex ?gs 0). v < 2 ^ 32) \<longrightarrow> 0 < totalIndices ?gs \<longrightarrow>
            index m = Some \<lparr> attr_array = expectedIndex ?gs 0, attr_count = totalIndices ?gs \<rparr>)"
      by (rule exE)
    have m1: "mergeBufferGeometries fround ?gs = Inr m"
      using big by (rule conjunct1)
    have m2: "attr_count (position m) = 9"
      using big [THEN conjunct2, THEN conjunct1] tv by simp
    have m3: "attr_array (position m)
       = map fround [0, 0, 0, 1, 0, 0, 0, 1, 0, 5, 5, 5, 6, 5, 5, 5, 6, 5, 0, 0, 0, 1, 0, 0, 0, 1, 0]"
      using big [THEN conjunct2, THEN conjunct2, THEN conjunct1] unfolding cc .
    have m4: "index m = Some \<lparr> attr_array = [0, 1, 2, 6, 7, 8], attr_count = 6 \<rparr>"
      using big [THEN conjunct2, THEN conjunct2, THEN conjunct2, THEN conjunct2, THEN conjunct2, THEN conjunct2]
      unfolding ei ti by simp
    show ?thesis
      unfolding m1 using m2 m3 m4 by simp
  qed
  then show ?thesis using w af by blast
qed

text \<open>
  C10 as stated fails for an input whose index is present and empty: indexCount is 0,
  so no index array is allocated and the merged geometry has no index although an input
  has one.
\<close>

theorem merge_empty_index_counterexample:
  "wf_geometry emptyIndexed \<and> index emptyIndexed \<noteq> None
   \<and> attrsFit [emptyIndexed] 0 (totalVertices [emptyIndexed])
   \<and> (\<forall>fround. map_sum id index (mergeBufferGeometries fround [emptyIndexed]) = Inr None)"
  by (simp add: wf_geometry_def emptyIndexed_def mergeBufferGeometries_def countTotals_def
      mergeStep_def float32Set_def optSet_def Let_def fitsAt_def optFits_def
      totalVertices_def)

section \<open>Layout generator: properties\<close>

lemma strides_bound: "v \<in> set (strides n) \<Longrightarrow> v < n"
proof -
  assume "v \<in> set (strides n)"
  then obtain k where k: "v = k * 4" "k < (n + 3) div 4"
    by (auto simp: strides_def step_px_def)
  then show "v < n" by linarith
qed

lemma scanPixel_footprint:
  assumes "x < width" and "y < height" and "\<forall>p\<in>set points. inFootprint p"
  shows "\<forall>p\<in>set (scanPixel data y x points). inFootprint p"
proof -
  have x: "0 \<le> real x / 1024" "real x / 1024 \<le> 1"
    using assms(1) by (simp_all add: width_def)
  have y: "0 \<le> real y / 512" "real y / 512 \<le> 1"
    using assms(2) by (simp_all add: height_def)
  have "inFootprint \<lparr> vx = (real x / real width - 0.5) * 75,
                        vy = - (real y / real height - 0.5) * 35, vz = 0 \<rparr>"
    using x y by (simp add: inFootprint_def width_def height_def)
  then show ?thesis
    using assms(3) by (simp add: scanPixel_def Let_def)
qed

lemma scanRow_footprint:
  assumes "y < height" and "\<forall>x\<in>set xs. x < width" and "\<forall>p\<in>set points. inFootprint p"
  shows "\<forall>p\<in>set (fold (\<lambda>x pts. scanPixel data y x pts) xs points). inFootprint p"
  using assms(2,3)
proof (induction xs arbitrary: points)
  case Nil
  then show ?case by simp
next
  case (Cons x xs)
  have "x < width" using Cons.prems(1) by simp
  then have "\<forall>p\<in>set (scanPixel data y x points). inFootprint p"
    using assms(1) Cons.prems(2) by (rule scanPixel_footprint)
  then show ?case using Cons.IH Cons.prems(1) by simp
qed

lemma scanRows_footprint:
  assumes "\<forall>y\<in>set ys. y < height" and "\<forall>p\<in>set points. inFootprint p"
  shows "\<forall>p\<in>set (fold (\<lambda>y points. fold (\<lambda>x pts. scanPixel data y x pts) (strides width) points)
                      ys points). inFootprint p"
  using assms
proof (induction ys arbitrary: points)
  case Nil
  then show ?case by simp
next
  case (Cons y ys)
  have "\<forall>p\<in>set (fold (\<lambda>x pts. scanPixel data y x pts) (strides width) points). inFootprint p"
    using Cons.prems by (intro scanRow_footprint) (auto dest: strides_bound)
  then show ?case using Cons.IH Cons.prems(1) by simp
qed

lemma scan_footprint: "\<forall>p\<in>set (scan data). inFootprint p"
  unfolding scan_def by (rule scanRows_footprint) (auto dest: strides_bound)

lemma scanRow_dark:
  assumes "\<forall>i. data i \<le> 100"
  shows "fold (\<lambda>x pts. scanPixel data y x pts) xs points = points"
proof (induction xs)
  case Nil
  show ?case by simp
next
  case (Cons x xs)
  have "\<not> data ((y * width + x) * 4) > 100" using assms by (simp add: not_less)
  then have "scanPixel data y x points = points" by (simp add: scanPixel_def Let_def)
  then show ?case using Cons.IH by simp
qed

lemma scan_dark:
  assumes "\<forall>i. data i \<le> 100"
  shows "scan data = []"
proof -
  have "fold (\<lambda>y points. fold (\<lambda>x pts. scanPixel data y x pts) (strides width) points) ys points
        = points" for ys points
    by (induction ys) (simp_all add: scanRow_dark [OF assms])
  then show ?thesis by (simp add: scan_def)
qed

lemma floor_index:
  fixes r :: real
  assumes "0 \<le> r" "r < 1"
  shows "nat \<lfloor>r * real (Suc i + 1)\<rfloor> \<le> Suc i"
proof -
  have "r * real (Suc i + 1) < 1 * real (Suc i + 1)"
    using assms by (intro mult_strict_right_mono) simp_all
  then have "\<lfloor>r * real (Suc i + 1)\<rfloor> < int (Suc i + 1)"
    by (simp add: floor_less_iff)
  then show ?thesis by linarith
qed

lemma shuffle_set:
  assumes "\<forall>k. 0 \<le> rand k \<and> rand k < 1" and "i < length points"
  shows "set (shuffle i rand k points) = set points \<and> length (shuffle i rand k points) = length points"
  using assms(2)
proof (induction i arbitrary: k points)
  case 0
  show ?case by simp
next
  case (Suc i)
  let ?j = "nat \<lfloor>rand k * real (Suc i + 1)\<rfloor>"
  let ?pts = "points[Suc i := points ! ?j, ?j := points ! Suc i]"
  have j: "?j < length points"
    using floor_index [of "rand k" i] assms(1) Suc.prems by (simp add: le_less_trans)
  have s: "set ?pts = set points"
    using Suc.prems j by (rule set_swap)
  have l: "length ?pts = length points" by simp
  have "i < length ?pts" using Suc.prems by simp
  from Suc.IH [OF this, of "k + 1"] s l
  show ?case by (simp add: Let_def)
qed

lemma jitter_bound:
  assumes "0 \<le> r" "r < 1"
  shows "- 0.05 \<le> jitter r" "jitter r < 0.05"
  using assms by (simp_all add: jitter_def)

lemma fill_length: "length (fill n i points rand k result) = length result + n"
  by (induction n arbitrary: i k result) (simp_all add: Let_def)

lemma fill_bounds:
  assumes "\<forall>k. 0 \<le> rand k \<and> rand k < 1" and "points \<noteq> []"
    and "\<forall>p\<in>set points. inFootprint p" and "\<forall>q\<in>set result. nearFootprint q"
  shows "\<forall>q\<in>set (fill n i points rand k result). nearFootprint q"
  using assms(4)
proof (induction n arbitrary: i k result)
  case 0
  then show ?case by simp
next
  case (Suc n)
  let ?p = "points ! (i mod length points)"
  let ?q = "\<lparr> vx = vx ?p + jitter (rand k), vy = vy ?p + jitter (rand (k + 1)),
               vz = jitter (rand (k + 2)) \<rparr>"
  have "?p \<in> set points" using assms(2) by simp
  then have p: "inFootprint ?p" using assms(3) by blast
  have j0: "- 0.05 \<le> jitter (rand k)" "jitter (rand k) < 0.05"
    using jitter_bound [of "rand k"] assms(1) by simp_all
  have j1: "- 0.05 \<le> jitter (rand (k + 1))" "jitter (rand (k + 1)) < 0.05"
    using jitter_bound [of "rand (k + 1)"] assms(1) by simp_all
  have j2: "- 0.05 \<le> jitter (rand (k + 2))" "jitter (rand (k + 2)) < 0.05"
    using jitter_bound [of "rand (k + 2)"] assms(1) by simp_all
  have "nearFootprint ?q"
    using p j0 j1 j2 unfolding nearFootprint_def inFootprint_def abs_le_iff
    by simp
  then have "\<forall>q\<in>set (result @ [?q]). nearFootprint q"
    using Suc.prems by simp
  from Suc.IH [OF this] show ?case by (simp add: Let_def)
qed


lemma shuffle_start:
  assumes "\<forall>k. 0 \<le> rand k \<and> rand k < 1"
  shows "set (shuffle (length points - 1) rand k points) = set points
       \<and> length (shuffle (length points - 1) rand k points) = length points"
proof (cases points)
  case Nil
  then show ?thesis by simp
next
  case (Cons p ps)
  then have "length points - 1 < length points" by simp
  then show ?thesis by (rule shuffle_set [OF assms])
qed

text \<open>
  What the layout generator does when it has a 2D context, with Math.random in [0, 1):
  the result has exactly \<open>count\<close> points, every point lies within the 75 by 35 footprint
  widened by the jitter (at most 0.05 on each axis, and z within the jitter alone), and
  when the scan collects no point the result is \<open>count\<close> copies of the origin.
\<close>

lemma layout_with_context:
  assumes "\<forall>k. 0 \<le> rand k \<and> rand k < 1" and r: "raster txt = Some data"
  shows "length (generateTextLayout raster rand txt count) = count
        \<and> (\<forall>q\<in>set (generateTextLayout raster rand txt count).
              \<bar>vx q\<bar> \<le> 75 / 2 + 0.05 \<and> \<bar>vy q\<bar> \<le> 35 / 2 + 0.05 \<and> \<bar>vz q\<bar> \<le> 0.05)
        \<and> (scan data = [] \<longrightarrow> generateTextLayout raster rand txt count = replicate count origin)"
proof (intro conjI impI)
  let ?pts = "shuffle (length (scan data) - 1) rand 0 (scan data)"
  have sh: "set ?pts = set (scan data)" "length ?pts = length (scan data)"
    using shuffle_start [OF assms(1)] by simp_all
  have g: "generateTextLayout raster rand txt count =
      (if length ?pts = 0 then replicate count origin
       else fill count 0 ?pts rand (length (scan data) - 1) [])"
    by (simp add: generateTextLayout_def r Let_def)
  show "length (generateTextLayout raster rand txt count) = count"
    by (simp add: g fill_length)
  show "\<forall>q\<in>set (generateTextLayout raster rand txt count).
              \<bar>vx q\<bar> \<le> 75 / 2 + 0.05 \<and> \<bar>vy q\<bar> \<le> 35 / 2 + 0.05 \<and> \<bar>vz q\<bar> \<le> 0.05"
  proof (cases "length ?pts = 0")
    case True
    then show ?thesis by (simp add: g origin_def)
  next
    case False
    then have ne: "?pts \<noteq> []" by simp
    have fp: "\<forall>p\<in>set ?pts. inFootprint p"
      using scan_footprint sh(1) by simp
    have "\<forall>q\<in>set (fill count 0 ?pts rand (length (scan data) - 1) []). nearFootprint q"
      using assms(1) ne fp by (rule fill_bounds) simp
    then show ?thesis using False by (simp add: g nearFootprint_def)
  qed
  show "generateTextLayout raster rand txt count = replicate count origin" if "scan data = []"
    using that sh(2) by (simp add: g)
qed

lemma layout_white_canvas:
  "length (generateTextLayout whiteCanvas halves ''2025'' 400) = 400"
proof -
  have h: "\<forall>k. 0 \<le> halves k \<and> halves k < 1"
    by (simp add: halves_def)
  have w: "whiteCanvas ''2025'' = Some (\<lambda>i. 255)"
    by (simp add: whiteCanvas_def)
  from layout_with_context [of halves whiteCanvas "''2025''" "\<lambda>i. 255" 400, OF h w]
  show ?thesis by blast
qed

lemma layout_black_canvas:
  "generateTextLayout blackCanvas halves ''2025'' count = replicate count origin"
proof -
  have h: "\<forall>k. 0 \<le> halves k \<and> halves k < 1"
    by (simp add: halves_def)
  have d: "scan (\<lambda>i. 0) = []"
    by (rule scan_dark) simp
  have b: "blackCanvas ''2025'' = Some (\<lambda>i. 0)"
    by (simp add: blackCanvas_def)
  from layout_with_context [of halves blackCanvas "''2025''" "\<lambda>i. 0" count, OF h b] d
  show ?thesis by blast
qed

text \<open>
  C4. The claim holds whenever the canvas gives a 2D context (lemma
  \<open>layout_with_context\<close>), and the code breaks it when canvas.getContext('2d') returns
  null: the early return gives the empty list where 400 points were asked for, the
  caller's read of the first layout point then raises, while the sibling degenerate
  path, a bitmap without any sample point, returns 400 copies of the origin.
\<close>

theorem layout_no_context:
  "generateTextLayout noCanvas halves ''2025'' 400 = []
   \<and> length (generateTextLayout noCanvas halves ''2025'' 400) \<noteq> 400
   \<and> formedBase (generateTextLayout noCanvas halves ''2025'' 400) 0 = Inl TypeError
   \<and> generateTextLayout blackCanvas halves ''2025'' 400 = replicate 400 origin"
proof -
  have e: "generateTextLayout noCanvas halves ''2025'' 400 = []"
    by (simp add: generateTextLayout_def noCanvas_def)
  have b: "generateTextLayout blackCanvas halves ''2025'' 400 = replicate 400 origin"
    by (rule layout_black_canvas)
  show ?thesis
    unfolding e using b by (simp add: formedBase_def)
qed

section \<open>Upload: properties\<close>

lemma imgOnload_pending:
  assumes "loadedCount u + 1 < n"
  shows "imgOnload n fr u = u\<lparr> newItems := newItems u @ [mkItem fr], loadedCount := loadedCount u + 1 \<rparr>"
  using assms by (cases fr) (simp add: imgOnload_def mkItem_def Let_def)

lemma imgOnload_last:
  assumes "loadedCount u + 1 = n"
  shows "imgOnload n fr u = u\<lparr> newItems := newItems u @ [mkItem fr], loadedCount := n,
           userTextures := userTextures u @ newItems u @ [mkItem fr],
           sceneReady := \<not> sceneReady u \<rparr>"
  using assms by (cases fr) (auto simp: imgOnload_def mkItem_def Let_def)

lemma loads_pending:
  assumes "loadedCount u + length loads < n"
  shows "fold (imgOnload n) loads u
       = u\<lparr> newItems := newItems u @ map mkItem loads, loadedCount := loadedCount u + length loads \<rparr>"
  using assms
proof (induction loads arbitrary: u)
  case Nil
  show ?case by simp
next
  case (Cons fr loads)
  have "loadedCount u + 1 < n" using Cons.prems by simp
  note s = imgOnload_pending [OF this, of fr]
  have "loadedCount (imgOnload n fr u) + length loads < n"
    using Cons.prems by (simp add: s)
  from Cons.IH [OF this] show ?case by (simp add: s)
qed

lemma loads_complete:
  assumes "loadedCount u + length loads = n" and "loads \<noteq> []"
  shows "userTextures (fold (imgOnload n) loads u) = userTextures u @ newItems u @ map mkItem loads"
proof -
  obtain pre fr where l: "loads = pre @ [fr]"
    using assms(2) by (metis rev_exhaust)
  have "loadedCount u + length pre < n" using assms(1) l by simp
  note p = loads_pending [OF this]
  have "loadedCount (fold (imgOnload n) pre u) + 1 = n"
    using assms(1) l by (simp add: p)
  note q = imgOnload_last [OF this, of fr]
  show ?thesis by (simp add: l q) (simp add: p)
qed

text \<open>One file that does not decode is enough for the batch never to be committed.\<close>
lemma upload_dropped:
  assumes "length loads < length files"
  shows "handleUpload files loads st = st"
proof -
  have "0 + length loads < length files" using assms by simp
  then have "fold (imgOnload (length files)) loads
               \<lparr> newItems = [], loadedCount = 0, userTextures = fst st, sceneReady = snd st \<rparr>
           = \<lparr> newItems = [], loadedCount = 0, userTextures = fst st, sceneReady = snd st \<rparr>
               \<lparr> newItems := [] @ map mkItem loads, loadedCount := 0 + length loads \<rparr>"
    using loads_pending [of "\<lparr> newItems = [], loadedCount = 0, userTextures = fst st, sceneReady = snd st \<rparr>" loads "length files"]
    by simp
  then show ?thesis using assms by (simp add: handleUpload_def Let_def)
qed

lemma upload_all_valid:
  assumes "length loads = length files" and "files \<noteq> []"
  shows "fst (handleUpload files loads st) = fst st @ map mkItem loads"
proof -
  have ne: "loads \<noteq> []" using assms by auto
  have "userTextures (fold (imgOnload (length files)) loads
               \<lparr> newItems = [], loadedCount = 0, userTextures = fst st, sceneReady = snd st \<rparr>)
       = fst st @ [] @ map mkItem loads"
    using loads_complete [of "\<lparr> newItems = [], loadedCount = 0, userTextures = fst st, sceneReady = snd st \<rparr>" loads "length files"] assms(1) ne
    by simp
  then show ?thesis using assms(2) by (simp add: handleUpload_def Let_def)
qed

lemma loadsOf_short:
  "\<exists>f\<in>set files. \<not> decodes f \<Longrightarrow> length (loadsOf files) < length files"
  by (auto simp: loadsOf_def intro: length_filter_less)

text \<open>
  C2. The batch is committed to userTextures only when loadedCount reaches files.length,
  and a file that does not decode never counts (lemma \<open>upload_dropped\<close>): of three valid
  images and one corrupt file none adds a texture, while the three valid images alone
  add three.
\<close>

theorem upload_batch_lost:
  "length (filter decodes [validFile 0, validFile 1, validFile 2, corruptFile 3]) = 3
   \<and> handleUpload [validFile 0, validFile 1, validFile 2, corruptFile 3]
        (loadsOf [validFile 0, validFile 1, validFile 2, corruptFile 3]) ([], False) = ([], False)
   \<and> length (fst (handleUpload [validFile 0, validFile 1, validFile 2]
        (loadsOf [validFile 0, validFile 1, validFile 2]) ([], False))) = 3"
  by (simp add: handleUpload_def loadsOf_def validFile_def corruptFile_def imgOnload_def Let_def)

end
